theory Spec2Isabelle
  imports
    Main
    "HOL-Library.Word"
    "HOL-Library.Char_ord"
    "HOL-Library.List_Lexorder"
    "HOL-Library.Multiset"
begin

section \<open>Volume bindings of eru-core (types/volume.go)\<close>

text \<open>
  A shallow embedding of \<^verbatim>\<open>src/types/volume.go\<close>. Go strings are modelled as
  \<^typ>\<open>string\<close>, one \<^typ>\<open>char\<close> per character of the Go string (the flag letters,
  the separator \<^verbatim>\<open>:\<close> and the digits are single-byte characters); \<^verbatim>\<open>int64\<close> is
  \<^typ>\<open>64 word\<close>, so \<open>+\<close> wraps as Go's does, and \<open>sint\<close> reads the signed value.
  Go's string comparison \<^verbatim>\<open><\<close> is the lexicographic order on character lists.
\<close>

type_synonym int64 = "64 word"

record VolumeBinding =
  Source :: string
  Destination :: string
  Flags :: string
  SizeInBytes :: int64
  ReadIOPS :: int64
  WriteIOPS :: int64
  ReadBytes :: int64
  WriteBytes :: int64

text \<open>The zero value \<^verbatim>\<open>&VolumeBinding{}\<close>.\<close>

definition zero_VolumeBinding :: VolumeBinding where
  "zero_VolumeBinding =
     \<lparr>Source = [], Destination = [], Flags = [], SizeInBytes = 0,
      ReadIOPS = 0, WriteIOPS = 0, ReadBytes = 0, WriteBytes = 0\<rparr>"

subsection \<open>Errors\<close>

text \<open>
  The errors of the file, as values. \<open>NumError\<close> is \<^verbatim>\<open>strconv.NumError\<close> with its cause
  and the text that failed to parse; the other four are the messages built with
  \<^verbatim>\<open>fmt.Errorf\<close> / \<^verbatim>\<open>errors.Errorf\<close> (\<^verbatim>\<open>errors.WithStack\<close> only adds a stack trace).
\<close>

datatype num_error = ErrSyntax | ErrRange

datatype error =
    NumError num_error string
  | InvalidRawVolume string
  | DestMustBeProvided VolumeBinding
  | MonopolyMustNotBeLimited VolumeBinding
  | InvalidIOParameters VolumeBinding

subsection \<open>Library functions the file calls\<close>

text \<open>
  \<^verbatim>\<open>strings.Split(s, sep)\<close> for a one-character separator: the pieces between the
  separators, never an empty list (\<^verbatim>\<open>Split("", ":") = [""]\<close>).
\<close>

fun Split :: "string \<Rightarrow> char \<Rightarrow> string list" where
  "Split [] sep = [[]]"
| "Split (c # cs) sep =
     (if c = sep then [] # Split cs sep
      else (case Split cs sep of [] \<Rightarrow> [[c]] | p # ps \<Rightarrow> (c # p) # ps))"

text \<open>
  \<^verbatim>\<open>strings.Split(s, "")\<close> explodes a string into its characters, \<^verbatim>\<open>sort.Strings\<close>
  sorts strings in increasing order, \<^verbatim>\<open>strings.Join(xs, "")\<close> concatenates.
\<close>

definition explode :: "string \<Rightarrow> string list" where
  "explode s = map (\<lambda>c. [c]) s"

definition sort_Strings :: "string list \<Rightarrow> string list" where
  "sort_Strings xs = sort xs"

definition Join :: "string list \<Rightarrow> string" where
  "Join xs = concat xs"

text \<open>
  \<^verbatim>\<open>strings.HasSuffix\<close> as Go implements it; \<^verbatim>\<open>strings.Contains\<close> and
  \<^verbatim>\<open>strings.ReplaceAll\<close> for a one-character pattern, which is how the file calls them.
\<close>

definition HasSuffix :: "string \<Rightarrow> string \<Rightarrow> bool" where
  "HasSuffix s suf = (length s \<ge> length suf \<and> drop (length s - length suf) s = suf)"

definition Contains :: "string \<Rightarrow> char \<Rightarrow> bool" where
  "Contains s c = (c \<in> set s)"

definition ReplaceAll :: "string \<Rightarrow> char \<Rightarrow> string \<Rightarrow> string" where
  "ReplaceAll s old new = concat (map (\<lambda>c. if c = old then new else [c]) s)"

text \<open>
  \<^verbatim>\<open>strconv.ParseUint(s, 10, 64)\<close>: the loop over the bytes of \<open>s\<close>, on \<^typ>\<open>nat\<close> with
  the 64-bit wrap-around of \<^verbatim>\<open>n *= 10\<close> and \<^verbatim>\<open>n + d\<close> written out. A byte that is
  not a decimal digit is a syntax error; the cutoff test and the test \<^verbatim>\<open>n1 < n\<close> are
  the range errors, which return the maximal value with the error.
\<close>

definition maxUint64 :: nat where
  "maxUint64 = 2 ^ 64 - 1"

definition is_digit :: "char \<Rightarrow> bool" where
  "is_digit c = (CHR ''0'' \<le> c \<and> c \<le> CHR ''9'')"

definition digit_val :: "char \<Rightarrow> nat" where
  "digit_val c = of_char c - of_char CHR ''0''"

fun ParseUint_loop :: "nat \<Rightarrow> string \<Rightarrow> nat \<times> num_error option" where
  "ParseUint_loop n [] = (n, None)"
| "ParseUint_loop n (c # cs) =
     (if \<not> is_digit c then (0, Some ErrSyntax)
      else if n \<ge> maxUint64 div 10 + 1 then (maxUint64, Some ErrRange)
      else let n10 = (n * 10) mod 2 ^ 64;
               n1 = (n10 + digit_val c) mod 2 ^ 64
           in if n1 < n10 \<or> n1 > maxUint64 then (maxUint64, Some ErrRange)
              else ParseUint_loop n1 cs)"

definition ParseUint :: "string \<Rightarrow> nat \<times> num_error option" where
  "ParseUint s = (if s = [] then (0, Some ErrSyntax) else ParseUint_loop 0 s)"

text \<open>
  \<^verbatim>\<open>strconv.ParseInt(s, 10, 64)\<close>: an optional sign, then \<open>ParseUint\<close>; a syntax error
  is returned as it is, and the magnitude is checked against \<open>2 ^ 63\<close>.
\<close>

definition ParseInt :: "string \<Rightarrow> num_error + int64" where
  "ParseInt s =
     (if s = [] then Inl ErrSyntax
      else let neg = (hd s = CHR ''-'');
               s1 = (if hd s = CHR ''+'' \<or> hd s = CHR ''-'' then tl s else s);
               (un, err) = ParseUint s1
           in if err = Some ErrSyntax then Inl ErrSyntax
              else if \<not> neg \<and> un \<ge> 2 ^ 63 then Inl ErrRange
              else if neg \<and> un > 2 ^ 63 then Inl ErrRange
              else Inr (if neg then - word_of_nat un else word_of_nat un))"

text \<open>
  The verb \<^verbatim>\<open>%d\<close> of \<^verbatim>\<open>fmt.Sprintf\<close> on an \<^verbatim>\<open>int64\<close>: the digits of the magnitude
  (\<^verbatim>\<open>u = -u\<close> on the unsigned value when negative), most significant first, after a
  \<^verbatim>\<open>-\<close> when negative.
\<close>

definition ldigits :: string where
  "ldigits = ''0123456789abcdefx''"

fun fmt_decimal :: "nat \<Rightarrow> string" where
  "fmt_decimal u =
     (if u \<ge> 10 then fmt_decimal (u div 10) @ [ldigits ! (u mod 10)]
      else [ldigits ! u])"

declare fmt_decimal.simps [simp del]

definition fmt_d :: "int64 \<Rightarrow> string" where
  "fmt_d v = (if sint v < 0 then CHR ''-'' # fmt_decimal (unat (- v)) else fmt_decimal (unat v))"

subsection \<open>Predicates and validation of one binding\<close>

definition auto :: string where
  "auto = ''AUTO''"

definition RequireSchedule :: "VolumeBinding \<Rightarrow> bool" where
  "RequireSchedule vb = HasSuffix (Source vb) auto"

definition RequireScheduleUnlimitedQuota :: "VolumeBinding \<Rightarrow> bool" where
  "RequireScheduleUnlimitedQuota vb = (RequireSchedule vb \<and> SizeInBytes vb = 0)"

definition RequireScheduleMonopoly :: "VolumeBinding \<Rightarrow> bool" where
  "RequireScheduleMonopoly vb = (RequireSchedule vb \<and> Contains (Flags vb) CHR ''m'')"

definition ValidIOParameters :: "VolumeBinding \<Rightarrow> bool" where
  "ValidIOParameters vb =
     (sint (ReadIOPS vb) \<ge> 0 \<and> sint (WriteIOPS vb) \<ge> 0 \<and>
      sint (ReadBytes vb) \<ge> 0 \<and> sint (WriteBytes vb) \<ge> 0)"

text \<open>\<open>Validate\<close> returns \<open>None\<close> for Go's \<^verbatim>\<open>nil\<close> error.\<close>

definition Validate :: "VolumeBinding \<Rightarrow> error option" where
  "Validate vb =
     (if Destination vb = [] then Some (DestMustBeProvided vb)
      else if RequireScheduleMonopoly vb \<and> RequireScheduleUnlimitedQuota vb
        then Some (MonopolyMustNotBeLimited vb)
      else if \<not> ValidIOParameters vb then Some (InvalidIOParameters vb)
      else None)"

subsection \<open>Parsing\<close>

text \<open>
  The \<^verbatim>\<open>switch len(parts)\<close> of \<open>NewVolumeBinding\<close> with its \<^verbatim>\<open>fallthrough\<close>s: each case
  is a function that ends in the next one. A failed \<open>ParseInt\<close> returns at once.
\<close>

definition parse_case2 :: "string list \<Rightarrow> VolumeBinding \<Rightarrow> error + VolumeBinding" where
  "parse_case2 parts vb = Inr (vb\<lparr>Source := parts ! 0, Destination := parts ! 1\<rparr>)"

definition parse_case3 :: "string list \<Rightarrow> VolumeBinding \<Rightarrow> error + VolumeBinding" where
  "parse_case3 parts vb = parse_case2 parts (vb\<lparr>Flags := parts ! 2\<rparr>)"

definition parse_case4 :: "string list \<Rightarrow> VolumeBinding \<Rightarrow> error + VolumeBinding" where
  "parse_case4 parts vb =
     (case ParseInt (parts ! 3) of
        Inl e \<Rightarrow> Inl (NumError e (parts ! 3))
      | Inr n \<Rightarrow> parse_case3 parts (vb\<lparr>SizeInBytes := n\<rparr>))"

definition parse_case8 :: "string list \<Rightarrow> VolumeBinding \<Rightarrow> error + VolumeBinding" where
  "parse_case8 parts vb =
     (case ParseInt (parts ! 4) of
        Inl e \<Rightarrow> Inl (NumError e (parts ! 4))
      | Inr a \<Rightarrow>
     (case ParseInt (parts ! 5) of
        Inl e \<Rightarrow> Inl (NumError e (parts ! 5))
      | Inr b \<Rightarrow>
     (case ParseInt (parts ! 6) of
        Inl e \<Rightarrow> Inl (NumError e (parts ! 6))
      | Inr c \<Rightarrow>
     (case ParseInt (parts ! 7) of
        Inl e \<Rightarrow> Inl (NumError e (parts ! 7))
      | Inr d \<Rightarrow>
          parse_case4 parts
            (vb\<lparr>ReadIOPS := a, WriteIOPS := b, ReadBytes := c, WriteBytes := d\<rparr>)))))"

definition parse_parts :: "string \<Rightarrow> string list \<Rightarrow> error + VolumeBinding" where
  "parse_parts rawVolume parts =
     (if length parts = 8 then parse_case8 parts zero_VolumeBinding
      else if length parts = 4 then parse_case4 parts zero_VolumeBinding
      else if length parts = 3 then parse_case3 parts zero_VolumeBinding
      else if length parts = 2 then parse_case2 parts zero_VolumeBinding
      else Inl (InvalidRawVolume rawVolume))"

text \<open>
  \<open>NewVolumeBinding\<close> returns Go's pair: \<^verbatim>\<open>(nil, err)\<close> when the string does not parse,
  and otherwise the binding with its flags sorted together with the result of
  \<open>Validate\<close> (the binding is returned also when validation fails).
\<close>

definition NewVolumeBinding :: "string \<Rightarrow> VolumeBinding option \<times> error option" where
  "NewVolumeBinding rawVolume =
     (case parse_parts rawVolume (Split rawVolume CHR '':'') of
        Inl e \<Rightarrow> (None, Some e)
      | Inr vb0 \<Rightarrow>
          let flagParts = sort_Strings (explode (Flags vb0));
              vb = vb0\<lparr>Flags := Join flagParts\<rparr>
          in (Some vb, Validate vb))"

text \<open>The local variable \<^verbatim>\<open>parts\<close> of \<open>NewVolumeBinding\<close>.\<close>

abbreviation parts_of :: "string \<Rightarrow> string list" where
  "parts_of rawVolume \<equiv> Split rawVolume CHR '':''"

subsection \<open>Emitting\<close>

text \<open>
  The local variable \<^verbatim>\<open>flags\<close> of \<open>ToString\<close>: without \<^verbatim>\<open>m\<close> when normalizing, and
  with \<^verbatim>\<open>o\<close> expanded (\<^verbatim>\<open>o\<close> removed, \<^verbatim>\<open>r\<close> to \<^verbatim>\<open>ro\<close>, \<^verbatim>\<open>w\<close> to \<^verbatim>\<open>wo\<close>) when
  it contains \<^verbatim>\<open>o\<close>.
\<close>

definition ToString_flags :: "string \<Rightarrow> bool \<Rightarrow> string" where
  "ToString_flags flags normalize_flag =
     (let flags0 = (if normalize_flag then ReplaceAll flags CHR ''m'' [] else flags)
      in if Contains flags0 CHR ''o''
         then ReplaceAll (ReplaceAll (ReplaceAll flags0 CHR ''o'' []) CHR ''r'' ''ro'')
                CHR ''w'' ''wo''
         else flags0)"

text \<open>
  The \<^verbatim>\<open>switch\<close> of \<open>ToString\<close> tests the binding's own \<open>Flags\<close>, not the local
  variable, and its cases are tried in order.
\<close>

definition ToString :: "VolumeBinding \<Rightarrow> bool \<Rightarrow> string" where
  "ToString vb normalize_flag =
     (let flags = ToString_flags (Flags vb) normalize_flag
      in if Flags vb = [] \<and> SizeInBytes vb = 0
           then Source vb @ '':'' @ Destination vb
         else if ReadIOPS vb \<noteq> 0 \<or> WriteIOPS vb \<noteq> 0 \<or> ReadBytes vb \<noteq> 0 \<or> WriteBytes vb \<noteq> 0
           then Source vb @ '':'' @ Destination vb @ '':'' @ flags @ '':'' @
                fmt_d (SizeInBytes vb) @ '':'' @ fmt_d (ReadIOPS vb) @ '':'' @
                fmt_d (WriteIOPS vb) @ '':'' @ fmt_d (ReadBytes vb) @ '':'' @
                fmt_d (WriteBytes vb)
         else Source vb @ '':'' @ Destination vb @ '':'' @ flags @ '':'' @
              fmt_d (SizeInBytes vb))"

subsection \<open>Collections read by value: TotalSize and MergeVolumeBindings\<close>

text \<open>
  \<^verbatim>\<open>VolumeBindings\<close> is a slice of pointers. \<open>TotalSize\<close> and \<open>MergeVolumeBindings\<close>
  only read the bindings their arguments point to, so they are given the list of these
  records; the bindings \<open>MergeVolumeBindings\<close> returns are freshly built.
\<close>

definition TotalSize :: "VolumeBinding list \<Rightarrow> int64" where
  "TotalSize vbs = foldl (\<lambda>total vb. total + SizeInBytes vb) 0 vbs"

text \<open>
  The map \<^verbatim>\<open>sizeMap\<close> from \<^verbatim>\<open>[3]string\<close> to \<^verbatim>\<open>[]int64\<close> is an association list with
  one entry per key, in the order in which the keys were first stored; the empty list
  stands for a \<^verbatim>\<open>nil\<close> slice.
\<close>

type_synonym key3 = "string \<times> string \<times> string"

type_synonym sizeMap = "(key3 \<times> int64 list) list"

definition key_of :: "VolumeBinding \<Rightarrow> key3" where
  "key_of vb = (Source vb, Destination vb, Flags vb)"

fun store_entry :: "key3 \<Rightarrow> int64 list \<Rightarrow> sizeMap \<Rightarrow> sizeMap" where
  "store_entry k v [] = [(k, v)]"
| "store_entry k v (p # ps) = (if fst p = k then (k, v) # ps else p # store_entry k v ps)"

text \<open>The body of the inner loop: one binding is entered into \<^verbatim>\<open>sizeMap\<close>.\<close>

definition merge_step :: "sizeMap \<Rightarrow> VolumeBinding \<Rightarrow> sizeMap" where
  "merge_step sizeMap vb =
     (let key = key_of vb in
      case map_of sizeMap key of
        None \<Rightarrow>
          store_entry key
            [SizeInBytes vb, ReadIOPS vb, WriteIOPS vb, ReadBytes vb, WriteBytes vb] sizeMap
      | Some para \<Rightarrow>
          if para = [] then
            store_entry key
              [SizeInBytes vb, ReadIOPS vb, WriteIOPS vb, ReadBytes vb, WriteBytes vb] sizeMap
          else
            store_entry key
              [para ! 0 + SizeInBytes vb, para ! 1 + ReadIOPS vb, para ! 2 + WriteIOPS vb,
               para ! 3 + ReadBytes vb, para ! 4 + WriteBytes vb] sizeMap)"

definition merge_sizeMap :: "VolumeBinding list list \<Rightarrow> sizeMap" where
  "merge_sizeMap vbss = foldl (\<lambda>m vbs. foldl merge_step m vbs) [] vbss"

definition merge_emit :: "key3 \<times> int64 list \<Rightarrow> VolumeBinding" where
  "merge_emit e =
     (case e of ((src, dst, flags), para) \<Rightarrow>
        \<lparr>Source = src, Destination = dst, Flags = flags, SizeInBytes = para ! 0,
         ReadIOPS = para ! 1, WriteIOPS = para ! 2, ReadBytes = para ! 3,
         WriteBytes = para ! 4\<rparr>)"

text \<open>
  \<open>MergeVolumeBindings vbs1 vbs2\<close>, with the variadic \<open>vbs2\<close> a list of collections,
  walks \<^verbatim>\<open>append(vbs2, vbs1)\<close>. Go ranges over a map in an unspecified order; the model
  emits the entries in the order of the association list, and the properties proved of
  the result speak of its elements only, not of their order.
\<close>

definition MergeVolumeBindings ::
    "VolumeBinding list \<Rightarrow> VolumeBinding list list \<Rightarrow> VolumeBinding list" where
  "MergeVolumeBindings vbs1 vbs2 =
     map merge_emit
       (filter (\<lambda>e. \<not> sint (snd e ! 0) < 0) (merge_sizeMap (vbs2 @ [vbs1])))"

subsection \<open>Collections with their pointers: ApplyPlan, ToStringSlice, IsEqual\<close>

text \<open>
  \<open>ApplyPlan\<close> copies bindings and writes to the copies, and \<open>ToStringSlice\<close> sorts the
  receiver's backing array, so both are modelled with the pointers. A store is the list
  of the bindings allocated so far; the pointer \<open>p > 0\<close> refers to the cell \<open>p - 1\<close>, and
  \<open>0\<close> is \<^verbatim>\<open>nil\<close>. Dereferencing \<^verbatim>\<open>nil\<close> panics: \<open>None\<close>.
\<close>

type_synonym ptr = nat

type_synonym store = "VolumeBinding list"

definition deref :: "store \<Rightarrow> ptr \<Rightarrow> VolumeBinding option" where
  "deref h p = (if p = 0 \<or> length h < p then None else Some (h ! (p - 1)))"

definition alloc :: "store \<Rightarrow> VolumeBinding \<Rightarrow> store \<times> ptr" where
  "alloc h v = (h @ [v], Suc (length h))"

definition set_Source :: "store \<Rightarrow> ptr \<Rightarrow> string \<Rightarrow> store" where
  "set_Source h p s = h[p - 1 := (h ! (p - 1))\<lparr>Source := s\<rparr>]"

text \<open>
  \<^verbatim>\<open>VolumePlan.GetVolumeMap\<close> and \<^verbatim>\<open>VolumeMap.GetResourceID\<close> are declared in a file
  that is not part of the sources. They are parameters of the model: \<open>getVolumeMap\<close> is
  the plan's lookup for a binding (\<open>None\<close> for a \<^verbatim>\<open>nil\<close> volume map) and
  \<open>getResourceID\<close> reads the resource id of a volume map. Both only read.
\<close>

fun ApplyPlan_loop ::
    "(VolumeBinding \<Rightarrow> 'vm option) \<Rightarrow> ('vm \<Rightarrow> string) \<Rightarrow> store \<Rightarrow> ptr list \<Rightarrow> ptr list
       \<Rightarrow> (store \<times> ptr list) option" where
  "ApplyPlan_loop getVolumeMap getResourceID h [] res = Some (h, res)"
| "ApplyPlan_loop getVolumeMap getResourceID h (vb # vbs) res =
     (case deref h vb of
        None \<Rightarrow> None
      | Some tmp \<Rightarrow>
          (case alloc h tmp of (h1, newVb) \<Rightarrow>
             ApplyPlan_loop getVolumeMap getResourceID
               (case getVolumeMap tmp of
                  None \<Rightarrow> h1
                | Some vmap \<Rightarrow> set_Source h1 newVb (getResourceID vmap))
               vbs (res @ [newVb])))"

definition ApplyPlan ::
    "(VolumeBinding \<Rightarrow> 'vm option) \<Rightarrow> ('vm \<Rightarrow> string) \<Rightarrow> store \<Rightarrow> ptr list
       \<Rightarrow> (store \<times> ptr list) option" where
  "ApplyPlan getVolumeMap getResourceID h vbs =
     ApplyPlan_loop getVolumeMap getResourceID h vbs []"

text \<open>
  \<^verbatim>\<open>sort.Slice\<close> with the comparison \<^verbatim>\<open>vbs[i].ToString(false) < vbs[j].ToString(false)\<close>
  sorts the slice by that string. Go's sort is not stable; the model takes the stable
  result, and what is proved of it (a sorted permutation) holds of any sort.
  \<open>ToStringSlice\<close> returns the strings together with the new contents of the receiver's
  backing array; the store is only read.
\<close>

definition sort_Slice :: "('a \<Rightarrow> string) \<Rightarrow> 'a list \<Rightarrow> 'a list" where
  "sort_Slice k xs = sort_key k xs"

definition ToStringSlice ::
    "store \<Rightarrow> ptr list \<Rightarrow> bool \<Rightarrow> bool \<Rightarrow> (string list \<times> ptr list) option" where
  "ToStringSlice h vbs sorted_flag normalize_flag =
     (if list_ex (\<lambda>p. deref h p = None) vbs then None
      else let vbs' = (if sorted_flag
                       then sort_Slice (\<lambda>p. ToString (the (deref h p)) False) vbs
                       else vbs)
           in Some (map (\<lambda>p. ToString (the (deref h p)) normalize_flag) vbs', vbs'))"

text \<open>
  \<open>IsEqual\<close> returns the comparison together with the new contents of both slices.
\<close>

definition IsEqual ::
    "store \<Rightarrow> ptr list \<Rightarrow> ptr list \<Rightarrow> (bool \<times> ptr list \<times> ptr list) option" where
  "IsEqual h vbs vbs2 =
     (case ToStringSlice h vbs True False of
        None \<Rightarrow> None
      | Some (s1, vbs') \<Rightarrow>
          (case ToStringSlice h vbs2 True False of
             None \<Rightarrow> None
           | Some (s2, vbs2') \<Rightarrow> Some (s1 = s2, vbs', vbs2')))"

subsection \<open>Merging, in the words of the specification\<close>

text \<open>
  The specification of \<open>MergeVolumeBindings\<close>: group the bindings by source,
  destination and flags; within a group add up each of the five numbers (with the
  arithmetic of \<^verbatim>\<open>int64\<close>); keep the groups whose size is not negative. The groups are
  listed by their keys, each key once.
\<close>

definition group_of :: "VolumeBinding list \<Rightarrow> key3 \<Rightarrow> VolumeBinding list" where
  "group_of vbs k = filter (\<lambda>vb. key_of vb = k) vbs"

definition group_sum :: "(VolumeBinding \<Rightarrow> int64) \<Rightarrow> VolumeBinding list \<Rightarrow> key3 \<Rightarrow> int64" where
  "group_sum f vbs k = sum_list (map f (group_of vbs k))"

definition merged_group :: "VolumeBinding list \<Rightarrow> key3 \<Rightarrow> VolumeBinding" where
  "merged_group vbs k =
     \<lparr>Source = fst k, Destination = fst (snd k), Flags = snd (snd k),
      SizeInBytes = group_sum SizeInBytes vbs k, ReadIOPS = group_sum ReadIOPS vbs k,
      WriteIOPS = group_sum WriteIOPS vbs k, ReadBytes = group_sum ReadBytes vbs k,
      WriteBytes = group_sum WriteBytes vbs k\<rparr>"

definition kept_keys :: "VolumeBinding list \<Rightarrow> key3 list" where
  "kept_keys vbs =
     filter (\<lambda>k. 0 \<le> sint (group_sum SizeInBytes vbs k)) (remdups (map key_of vbs))"

definition dropped_keys :: "VolumeBinding list \<Rightarrow> key3 list" where
  "dropped_keys vbs =
     filter (\<lambda>k. sint (group_sum SizeInBytes vbs k) < 0) (remdups (map key_of vbs))"

definition merge_spec :: "VolumeBinding list \<Rightarrow> VolumeBinding list" where
  "merge_spec vbs = map (merged_group vbs) (kept_keys vbs)"

subsection \<open>Auxiliary notions of the proofs\<close>

text \<open>
  The value of a digit string read after an accumulator, and the two tests of the
  \<^verbatim>\<open>switch\<close> of \<open>ToString\<close>.
\<close>

definition dec_val :: "nat \<Rightarrow> string \<Rightarrow> nat" where
  "dec_val acc ds = foldl (\<lambda>a c. a * 10 + digit_val c) acc ds"

definition emits2 :: "VolumeBinding \<Rightarrow> bool" where
  "emits2 vb = (Flags vb = [] \<and> SizeInBytes vb = 0)"

definition has_quota :: "VolumeBinding \<Rightarrow> bool" where
  "has_quota vb =
     (ReadIOPS vb \<noteq> 0 \<or> WriteIOPS vb \<noteq> 0 \<or> ReadBytes vb \<noteq> 0 \<or> WriteBytes vb \<noteq> 0)"

text \<open>The five sums of a group, as \<^verbatim>\<open>sizeMap\<close> holds them.\<close>

definition group_para :: "VolumeBinding list \<Rightarrow> key3 \<Rightarrow> int64 list" where
  "group_para vbs k =
     [group_sum SizeInBytes vbs k, group_sum ReadIOPS vbs k, group_sum WriteIOPS vbs k,
      group_sum ReadBytes vbs k, group_sum WriteBytes vbs k]"

text \<open>
  What \<open>ApplyPlan\<close> makes of one binding: the source is replaced when the plan has a
  volume map for the binding.
\<close>

definition planned ::
    "(VolumeBinding \<Rightarrow> 'vm option) \<Rightarrow> ('vm \<Rightarrow> string) \<Rightarrow> VolumeBinding \<Rightarrow> VolumeBinding" where
  "planned getVolumeMap getResourceID vb =
     (case getVolumeMap vb of
        None \<Rightarrow> vb
      | Some vmap \<Rightarrow> vb\<lparr>Source := getResourceID vmap\<rparr>)"

text \<open>
  The invariant of the loops of \<open>MergeVolumeBindings\<close>: after the bindings \<open>xs\<close>,
  \<^verbatim>\<open>sizeMap\<close> has one entry for each key of \<open>xs\<close>, with the sums of its group.
\<close>

definition sizeMap_inv :: "VolumeBinding list \<Rightarrow> sizeMap \<Rightarrow> bool" where
  "sizeMap_inv xs m \<longleftrightarrow>
     distinct (map fst m) \<and>
     (\<forall>k. map_of m k = (if k \<in> key_of ` set xs then Some (group_para xs k) else None))"

section \<open>Properties\<close>

subsection \<open>Evaluation on concrete inputs\<close>

lemmas parse_defs = NewVolumeBinding_def parse_parts_def parse_case8_def parse_case4_def
  parse_case3_def parse_case2_def ParseInt_def ParseUint_def is_digit_def digit_val_def
  maxUint64_def zero_VolumeBinding_def explode_def sort_Strings_def Join_def

lemmas validate_defs = Validate_def RequireScheduleMonopoly_def
  RequireScheduleUnlimitedQuota_def RequireSchedule_def HasSuffix_def Contains_def
  ValidIOParameters_def auto_def

lemmas emit_defs = ToString_def ToString_flags_def ReplaceAll_def Contains_def fmt_d_def
  fmt_decimal.simps ldigits_def

subsection \<open>Validation\<close>

lemma HasSuffix_iff: "HasSuffix s suf \<longleftrightarrow> (\<exists>p. s = p @ suf)"
proof
  assume "HasSuffix s suf"
  then have "s = take (length s - length suf) s @ suf"
    by (metis HasSuffix_def append_take_drop_id)
  then show "\<exists>p. s = p @ suf" ..
next
  assume "\<exists>p. s = p @ suf"
  then show "HasSuffix s suf"
    by (auto simp: HasSuffix_def)
qed

lemma RequireSchedule_iff: "RequireSchedule vb \<longleftrightarrow> (\<exists>p. Source vb = p @ ''AUTO'')"
  by (simp add: RequireSchedule_def HasSuffix_iff auto_def)

text \<open>
  C6. \<open>Validate\<close> returns an error exactly when the destination is empty, or one of the
  four IO numbers is negative, or the binding is at once a monopoly binding (its source
  ends in \<^verbatim>\<open>AUTO\<close> and its flags contain \<^verbatim>\<open>m\<close>) and an unlimited-quota binding (its
  source ends in \<^verbatim>\<open>AUTO\<close> and its size is 0).
\<close>

theorem Validate_error_iff:
  "Validate vb \<noteq> None \<longleftrightarrow>
     (Destination vb = []
      \<or> sint (ReadIOPS vb) < 0 \<or> sint (WriteIOPS vb) < 0
      \<or> sint (ReadBytes vb) < 0 \<or> sint (WriteBytes vb) < 0
      \<or> (((\<exists>p. Source vb = p @ ''AUTO'') \<and> CHR ''m'' \<in> set (Flags vb))
         \<and> ((\<exists>p. Source vb = p @ ''AUTO'') \<and> SizeInBytes vb = 0)))"
proof -
  have "RequireScheduleMonopoly vb \<longleftrightarrow>
          (\<exists>p. Source vb = p @ ''AUTO'') \<and> CHR ''m'' \<in> set (Flags vb)"
    by (simp add: RequireScheduleMonopoly_def RequireSchedule_iff Contains_def)
  moreover have "RequireScheduleUnlimitedQuota vb \<longleftrightarrow>
          (\<exists>p. Source vb = p @ ''AUTO'') \<and> SizeInBytes vb = 0"
    by (simp add: RequireScheduleUnlimitedQuota_def RequireSchedule_iff)
  moreover have "Validate vb \<noteq> None \<longleftrightarrow>
     (Destination vb = []
      \<or> sint (ReadIOPS vb) < 0 \<or> sint (WriteIOPS vb) < 0
      \<or> sint (ReadBytes vb) < 0 \<or> sint (WriteBytes vb) < 0
      \<or> (RequireScheduleMonopoly vb \<and> RequireScheduleUnlimitedQuota vb))"
    by (auto simp: Validate_def ValidIOParameters_def)
  ultimately show ?thesis by simp
qed

subsection \<open>Scenario S1\<close>

text \<open>
  C2, as the specification states it, fails: the string of scenario S1 parses to the
  fields given there, but validation does not fail, since its size is 1024 and not 0.
\<close>

theorem S1_validation_succeeds:
  "snd (NewVolumeBinding ''AUTO:/data:rwm:1024:10:20:4096:8192'') = None"
  by (simp add: parse_defs validate_defs)

text \<open>
  C2, amended. \<open>NewVolumeBinding\<close> on \<^verbatim>\<open>AUTO:/data:rwm:1024:10:20:4096:8192\<close> yields the
  binding with source \<^verbatim>\<open>AUTO\<close>, destination \<^verbatim>\<open>/data\<close>, flags \<^verbatim>\<open>mrw\<close>, size 1024 and the
  IO quotas 10, 20, 4096, 8192, and no error: the binding is a monopoly binding but not
  an unlimited-quota binding, and its IO quotas are not negative.
\<close>

theorem S1_parse_and_validate:
  "NewVolumeBinding ''AUTO:/data:rwm:1024:10:20:4096:8192'' =
     (Some \<lparr>Source = ''AUTO'', Destination = ''/data'', Flags = ''mrw'', SizeInBytes = 1024,
            ReadIOPS = 10, WriteIOPS = 20, ReadBytes = 4096, WriteBytes = 8192\<rparr>, None)
   \<and> RequireScheduleMonopoly
        \<lparr>Source = ''AUTO'', Destination = ''/data'', Flags = ''mrw'', SizeInBytes = 1024,
         ReadIOPS = 10, WriteIOPS = 20, ReadBytes = 4096, WriteBytes = 8192\<rparr>
   \<and> \<not> RequireScheduleUnlimitedQuota
        \<lparr>Source = ''AUTO'', Destination = ''/data'', Flags = ''mrw'', SizeInBytes = 1024,
         ReadIOPS = 10, WriteIOPS = 20, ReadBytes = 4096, WriteBytes = 8192\<rparr>
   \<and> ValidIOParameters
        \<lparr>Source = ''AUTO'', Destination = ''/data'', Flags = ''mrw'', SizeInBytes = 1024,
         ReadIOPS = 10, WriteIOPS = 20, ReadBytes = 4096, WriteBytes = 8192\<rparr>"
  by (simp add: parse_defs validate_defs)

subsection \<open>Decimal numbers\<close>

lemma digit_cases:
  assumes "d < (10::nat)"
  obtains "d = 0" | "d = 1" | "d = 2" | "d = 3" | "d = 4" | "d = 5" | "d = 6" | "d = 7" | "d = 8" | "d = 9"
  using assms by atomize_elim arith

lemma ldigits_is_digit: "d < 10 \<Longrightarrow> is_digit (ldigits ! d)"
  by (erule digit_cases) (simp_all add: ldigits_def is_digit_def)

lemma ldigits_digit_val: "d < 10 \<Longrightarrow> digit_val (ldigits ! d) = d"
  by (erule digit_cases) (simp_all add: ldigits_def digit_val_def)

lemma is_digit_not_special:
  "is_digit c \<Longrightarrow> c \<noteq> CHR '':'' \<and> c \<noteq> CHR ''-'' \<and> c \<noteq> CHR ''+''"
  by (auto simp: is_digit_def)

lemma fmt_decimal_digits: "c \<in> set (fmt_decimal n) \<Longrightarrow> is_digit c"
proof (induction n arbitrary: c rule: fmt_decimal.induct)
  case (1 u)
  show ?case
  proof (cases "u \<ge> 10")
    case True
    with "1.prems" have "c \<in> set (fmt_decimal (u div 10)) \<or> c = ldigits ! (u mod 10)"
      by (subst (asm) fmt_decimal.simps) auto
    then show ?thesis
      using "1.IH" [OF True] ldigits_is_digit [of "u mod 10"] by auto
  next
    case False
    with "1.prems" have "c = ldigits ! u"
      by (subst (asm) fmt_decimal.simps) auto
    then show ?thesis
      using False ldigits_is_digit [of u] by auto
  qed
qed

lemma fmt_decimal_not_Nil: "fmt_decimal n \<noteq> []"
  by (subst fmt_decimal.simps) auto

lemma dec_val_simps [simp]:
  "dec_val acc [] = acc"
  "dec_val acc (c # cs) = dec_val (acc * 10 + digit_val c) cs"
  "dec_val acc (cs @ [c]) = dec_val acc cs * 10 + digit_val c"
  by (simp_all add: dec_val_def)

lemma dec_val_ge: "acc \<le> dec_val acc ds"
proof (induction ds arbitrary: acc)
  case Nil
  show ?case by simp
next
  case (Cons c cs)
  have "acc \<le> acc * 10 + digit_val c" by simp
  also have "\<dots> \<le> dec_val (acc * 10 + digit_val c) cs" by (rule Cons.IH)
  finally show ?case by simp
qed

lemma dec_val_fmt_decimal: "dec_val 0 (fmt_decimal n) = n"
proof (induction n rule: fmt_decimal.induct)
  case (1 u)
  show ?case
  proof (cases "u \<ge> 10")
    case True
    have "dec_val 0 (fmt_decimal u) = dec_val 0 (fmt_decimal (u div 10)) * 10 + digit_val (ldigits ! (u mod 10))"
      using True by (subst fmt_decimal.simps) simp
    also have "\<dots> = (u div 10) * 10 + u mod 10"
      using "1.IH" [OF True] by (simp add: ldigits_digit_val)
    finally show ?thesis by simp
  next
    case False
    then show ?thesis
      by (subst fmt_decimal.simps) (simp add: ldigits_digit_val)
  qed
qed

lemma ParseUint_loop_digits:
  assumes "\<forall>c \<in> set ds. is_digit c" and "dec_val acc ds \<le> maxUint64"
  shows "ParseUint_loop acc ds = (dec_val acc ds, None)"
  using assms
proof (induction ds arbitrary: acc)
  case Nil
  show ?case by simp
next
  case (Cons c cs)
  let ?n1 = "acc * 10 + digit_val c"
  have le: "?n1 \<le> maxUint64"
    using dec_val_ge [of ?n1 cs] Cons.prems(2) by simp
  then have small: "acc < maxUint64 div 10 + 1" by (simp add: maxUint64_def)
  have m1: "(acc * 10) mod 18446744073709551616 = acc * 10"
    using le by (simp add: maxUint64_def)
  have m2: "(acc * 10 + digit_val c) mod 18446744073709551616 = ?n1"
    using le by (simp add: maxUint64_def)
  have "ParseUint_loop acc (c # cs) = ParseUint_loop ?n1 cs"
    using Cons.prems(1) small le by (simp add: m1 m2 Let_def)
  also have "\<dots> = (dec_val ?n1 cs, None)"
    using Cons.prems by (intro Cons.IH) simp_all
  finally show ?case by simp
qed

lemma ParseUint_fmt_decimal:
  "n \<le> maxUint64 \<Longrightarrow> ParseUint (fmt_decimal n) = (n, None)"
  by (simp add: ParseUint_def fmt_decimal_not_Nil ParseUint_loop_digits fmt_decimal_digits
      dec_val_fmt_decimal)

lemma hd_fmt_decimal: "hd (fmt_decimal n) \<noteq> CHR ''-'' \<and> hd (fmt_decimal n) \<noteq> CHR ''+''"
  using fmt_decimal_digits [of "hd (fmt_decimal n)" n] fmt_decimal_not_Nil [of n]
    is_digit_not_special by auto

lemma unat_bound64: "unat (v :: int64) \<le> maxUint64"
  using unsigned_less [of v, where ?'a = nat] by (simp add: maxUint64_def)

lemma sint_as_uint: "sint (v :: int64) = (uint v + 2 ^ 63) mod 2 ^ 64 - 2 ^ 63"
  by (simp add: sint_uint signed_take_bit_eq_take_bit_shift take_bit_eq_mod)

lemma sint_neg_iff: "sint (v :: int64) < 0 \<longleftrightarrow> 2 ^ 63 \<le> uint v"
proof -
  have b: "0 \<le> uint v" "uint v < 2 ^ 64"
    using uint_lt2p [of v] by simp_all
  show ?thesis
  proof (cases "2 ^ 63 \<le> uint v")
    case True
    then have "(uint v + 2 ^ 63) mod 2 ^ 64 = uint v + 2 ^ 63 - 2 ^ 64"
      using b by (simp add: mod_pos_geq)
    then show ?thesis using True b by (simp add: sint_as_uint)
  next
    case False
    then have "(uint v + 2 ^ 63) mod 2 ^ 64 = uint v + 2 ^ 63"
      using b by simp
    then show ?thesis using False b by (simp add: sint_as_uint)
  qed
qed

lemma sint_neg_unat: "sint (v :: int64) < 0 \<Longrightarrow> unat (- v) \<le> 2 ^ 63"
proof -
  assume "sint v < 0"
  then have lo: "2 ^ 63 \<le> uint v" by (simp add: sint_neg_iff)
  have hi: "uint v < 2 ^ 64" using uint_lt2p [of v] by simp
  have "uint (- v) = (- uint v) mod 2 ^ 64"
    by (simp add: uint_word_ariths)
  also have "\<dots> = (- uint v + 2 ^ 64) mod 2 ^ 64"
    by simp
  also have "\<dots> = - uint v + 2 ^ 64"
    using lo hi by (intro mod_pos_pos_trivial) simp_all
  finally have "uint (- v) \<le> 2 ^ 63" using lo by simp
  then show ?thesis
    unfolding unat_eq_nat_uint nat_le_iff by simp
qed

lemma sint_nonneg_unat: "\<not> sint (v :: int64) < 0 \<Longrightarrow> unat v < 2 ^ 63"
proof -
  assume "\<not> sint v < 0"
  then have "uint v < 2 ^ 63" by (simp add: sint_neg_iff)
  then show ?thesis
    unfolding unat_eq_nat_uint nat_less_iff [OF uint_ge_0] by simp
qed

lemma ParseInt_fmt_d: "ParseInt (fmt_d v) = Inr v"
proof (cases "sint v < 0")
  case True
  have "ParseUint (fmt_decimal (unat (- v))) = (unat (- v), None)"
    by (rule ParseUint_fmt_decimal) (rule unat_bound64)
  then show ?thesis
    using True sint_neg_unat [OF True] by (simp add: ParseInt_def fmt_d_def)
next
  case False
  have "ParseUint (fmt_decimal (unat v)) = (unat v, None)"
    by (rule ParseUint_fmt_decimal) (rule unat_bound64)
  then show ?thesis
    using False sint_nonneg_unat [OF False] hd_fmt_decimal [of "unat v"]
    by (simp add: ParseInt_def fmt_d_def fmt_decimal_not_Nil)
qed

lemma colon_notin_fmt_d: "CHR '':'' \<notin> set (fmt_d v)"
  using fmt_decimal_digits is_digit_not_special by (auto simp: fmt_d_def)


subsection \<open>Split\<close>

lemma Split_no_sep: "sep \<notin> set a \<Longrightarrow> Split a sep = [a]"
  by (induction a) auto

lemma Split_append_sep: "sep \<notin> set a \<Longrightarrow> Split (a @ sep # r) sep = a # Split r sep"
  by (induction a) auto

subsection \<open>Sorting the flags\<close>

lemma singleton_le_iff: "[a :: char] \<le> [b] \<longleftrightarrow> a \<le> b"
  by auto

lemma sort_explode: "sort (map (\<lambda>c. [c]) s) = map (\<lambda>c. [c]) (sort s)" for s :: string
proof (rule properties_for_sort)
  show "mset (map (\<lambda>c. [c]) (sort s)) = mset (map (\<lambda>c. [c]) s)"
    by simp
  have "sorted_wrt (\<lambda>x y. [x] \<le> [y]) (sort s) = sorted (sort s)"
    by (simp only: singleton_le_iff)
  then show "sorted (map (\<lambda>c. [c]) (sort s))"
    by (simp only: sorted_map sorted_sort)
qed

lemma Join_sort_explode: "Join (sort_Strings (explode s)) = sort s"
  by (simp add: Join_def sort_Strings_def explode_def sort_explode)

subsection \<open>Emitted flags\<close>

lemma notin_ReplaceAll:
  "c \<notin> set s \<Longrightarrow> c \<notin> set new \<Longrightarrow> c \<notin> set (ReplaceAll s old new)"
  by (auto simp: ReplaceAll_def split: if_splits)

lemma colon_notin_ToString_flags:
  assumes "CHR '':'' \<notin> set flags"
  shows "CHR '':'' \<notin> set (ToString_flags flags n)"
  using assms by (simp add: ToString_flags_def Let_def notin_ReplaceAll)

lemma ToString_flags_no_o:
  "CHR ''o'' \<notin> set flags \<Longrightarrow> ToString_flags flags False = flags"
  by (simp add: ToString_flags_def Contains_def)

lemma sorted_no_o_flags:
  "sorted flags \<Longrightarrow> CHR ''o'' \<notin> set flags \<Longrightarrow> sort (ToString_flags flags False) = flags"
  by (simp add: ToString_flags_no_o sorted_sort_id)


subsection \<open>Fields of the emitted string\<close>

lemma Split_2:
  assumes "CHR '':'' \<notin> set a" "CHR '':'' \<notin> set b"
  shows "Split (a @ CHR '':'' # b) CHR '':'' = [a, b]"
  using assms by (simp add: Split_append_sep Split_no_sep)

lemma Split_4:
  assumes "CHR '':'' \<notin> set a" "CHR '':'' \<notin> set b" "CHR '':'' \<notin> set c"
    "CHR '':'' \<notin> set d"
  shows "Split (a @ CHR '':'' # b @ CHR '':'' # c @ CHR '':'' # d) CHR '':'' = [a, b, c, d]"
  using assms by (simp add: Split_append_sep Split_no_sep)

lemma Split_8:
  assumes "CHR '':'' \<notin> set a" "CHR '':'' \<notin> set b" "CHR '':'' \<notin> set c"
    "CHR '':'' \<notin> set d" "CHR '':'' \<notin> set e" "CHR '':'' \<notin> set f"
    "CHR '':'' \<notin> set g" "CHR '':'' \<notin> set h"
  shows "Split (a @ CHR '':'' # b @ CHR '':'' # c @ CHR '':'' # d @ CHR '':'' # e @
            CHR '':'' # f @ CHR '':'' # g @ CHR '':'' # h) CHR '':'' = [a, b, c, d, e, f, g, h]"
  using assms by (simp add: Split_append_sep Split_no_sep)

lemma ToString_cases:
  "ToString vb n =
     (if emits2 vb then Source vb @ '':'' @ Destination vb
      else if has_quota vb
        then Source vb @ '':'' @ Destination vb @ '':'' @ ToString_flags (Flags vb) n @ '':'' @
             fmt_d (SizeInBytes vb) @ '':'' @ fmt_d (ReadIOPS vb) @ '':'' @
             fmt_d (WriteIOPS vb) @ '':'' @ fmt_d (ReadBytes vb) @ '':'' @
             fmt_d (WriteBytes vb)
      else Source vb @ '':'' @ Destination vb @ '':'' @ ToString_flags (Flags vb) n @ '':'' @
           fmt_d (SizeInBytes vb))"
  by (simp add: ToString_def emits2_def has_quota_def Let_def)

lemma ToString_fields_aux:
  assumes "CHR '':'' \<notin> set (Source vb)" and "CHR '':'' \<notin> set (Destination vb)"
    and "CHR '':'' \<notin> set (Flags vb)"
  shows "Split (ToString vb n) CHR '':'' =
     (if emits2 vb then [Source vb, Destination vb]
      else if has_quota vb
        then [Source vb, Destination vb, ToString_flags (Flags vb) n, fmt_d (SizeInBytes vb),
              fmt_d (ReadIOPS vb), fmt_d (WriteIOPS vb), fmt_d (ReadBytes vb),
              fmt_d (WriteBytes vb)]
      else [Source vb, Destination vb, ToString_flags (Flags vb) n, fmt_d (SizeInBytes vb)])"
proof -
  note f = colon_notin_ToString_flags [OF assms(3), of n]
  show ?thesis
    using assms f
    by (cases "emits2 vb"; cases "has_quota vb")
      (simp_all add: ToString_cases Split_2 Split_4 Split_8 colon_notin_fmt_d)
qed

subsection \<open>Round trip\<close>

text \<open>
  C1, as the specification states it, fails. The binding that \<^verbatim>\<open>/h:/c:rwo\<close> parses to
  has the flags \<^verbatim>\<open>orw\<close> and passes \<open>Validate\<close>; its non-normalized emission is
  \<^verbatim>\<open>/h:/c:rowo:0\<close>, which parses to a binding with the flags \<^verbatim>\<open>oorw\<close>.
\<close>

theorem roundtrip_fails_on_o_flag:
  "Validate \<lparr>Source = ''/h'', Destination = ''/c'', Flags = ''orw'', SizeInBytes = 0,
            ReadIOPS = 0, WriteIOPS = 0, ReadBytes = 0, WriteBytes = 0\<rparr> = None
   \<and> NewVolumeBinding ''/h:/c:rwo'' =
     (Some \<lparr>Source = ''/h'', Destination = ''/c'', Flags = ''orw'', SizeInBytes = 0,
            ReadIOPS = 0, WriteIOPS = 0, ReadBytes = 0, WriteBytes = 0\<rparr>, None)
   \<and> ToString \<lparr>Source = ''/h'', Destination = ''/c'', Flags = ''orw'', SizeInBytes = 0,
            ReadIOPS = 0, WriteIOPS = 0, ReadBytes = 0, WriteBytes = 0\<rparr> False = ''/h:/c:rowo:0''
   \<and> NewVolumeBinding ''/h:/c:rowo:0'' =
     (Some \<lparr>Source = ''/h'', Destination = ''/c'', Flags = ''oorw'', SizeInBytes = 0,
            ReadIOPS = 0, WriteIOPS = 0, ReadBytes = 0, WriteBytes = 0\<rparr>, None)
   \<and> NewVolumeBinding
        (ToString \<lparr>Source = ''/h'', Destination = ''/c'', Flags = ''orw'', SizeInBytes = 0,
            ReadIOPS = 0, WriteIOPS = 0, ReadBytes = 0, WriteBytes = 0\<rparr> False) \<noteq>
     (Some \<lparr>Source = ''/h'', Destination = ''/c'', Flags = ''orw'', SizeInBytes = 0,
            ReadIOPS = 0, WriteIOPS = 0, ReadBytes = 0, WriteBytes = 0\<rparr>, None)"
  by (simp add: parse_defs validate_defs emit_defs)

text \<open>
  C1, amended. Parsing the non-normalized emission of a binding gives the binding back,
  with no error, when the binding passes \<open>Validate\<close>, its source, destination and flags
  contain no \<^verbatim>\<open>:\<close>, its flags are what sorting the emitted flags gives (so for sorted
  flags without \<^verbatim>\<open>o\<close>), and it does not have IO quotas together with empty flags
  and size 0.
\<close>

theorem NewVolumeBinding_ToString_roundtrip:
  assumes valid: "Validate vb = None"
    and colons: "CHR '':'' \<notin> set (Source vb)" "CHR '':'' \<notin> set (Destination vb)"
      "CHR '':'' \<notin> set (Flags vb)"
    and flags: "sort (ToString_flags (Flags vb) False) = Flags vb"
    and quotas: "Flags vb = [] \<and> SizeInBytes vb = 0 \<longrightarrow>
      ReadIOPS vb = 0 \<and> WriteIOPS vb = 0 \<and> ReadBytes vb = 0 \<and> WriteBytes vb = 0"
  shows "NewVolumeBinding (ToString vb False) = (Some vb, None)"
proof -
  note fields = ToString_fields_aux [OF colons, of False]
  have "parse_parts (ToString vb False) (Split (ToString vb False) CHR '':'') =
     Inr (vb\<lparr>Flags := ToString_flags (Flags vb) False\<rparr>)"
  proof (cases "emits2 vb")
    case True
    then have "ToString_flags (Flags vb) False = []"
      by (simp add: ToString_flags_def Contains_def emits2_def)
    then show ?thesis
      using True quotas
      by (simp add: fields parse_parts_def parse_case2_def zero_VolumeBinding_def emits2_def)
  next
    case False
    show ?thesis
    proof (cases "has_quota vb")
      case True
      with False show ?thesis
        by (simp add: fields parse_parts_def parse_case8_def parse_case4_def parse_case3_def
            parse_case2_def zero_VolumeBinding_def ParseInt_fmt_d)
    next
      case no: False
      then have "ReadIOPS vb = 0" "WriteIOPS vb = 0" "ReadBytes vb = 0" "WriteBytes vb = 0"
        by (simp_all add: has_quota_def)
      with False no show ?thesis
        by (simp add: fields parse_parts_def parse_case4_def parse_case3_def
            parse_case2_def zero_VolumeBinding_def ParseInt_fmt_d)
    qed
  qed
  then show ?thesis
    using valid flags by (simp add: NewVolumeBinding_def Join_sort_explode)
qed

text \<open>The amended C1 at a binding with a negative size and IO quotas.\<close>

theorem NewVolumeBinding_ToString_roundtrip_witness:
  "Validate \<lparr>Source = ''/h'', Destination = ''/c'', Flags = ''rw'', SizeInBytes = - 100,
            ReadIOPS = 10, WriteIOPS = 0, ReadBytes = 0, WriteBytes = 4096\<rparr> = None
   \<and> sort (ToString_flags ''rw'' False) = ''rw''
   \<and> ToString \<lparr>Source = ''/h'', Destination = ''/c'', Flags = ''rw'', SizeInBytes = - 100,
            ReadIOPS = 10, WriteIOPS = 0, ReadBytes = 0, WriteBytes = 4096\<rparr> False
       = ''/h:/c:rw:-100:10:0:0:4096''
   \<and> NewVolumeBinding ''/h:/c:rw:-100:10:0:0:4096'' =
     (Some \<lparr>Source = ''/h'', Destination = ''/c'', Flags = ''rw'', SizeInBytes = - 100,
            ReadIOPS = 10, WriteIOPS = 0, ReadBytes = 0, WriteBytes = 4096\<rparr>, None)"
proof -
  let ?vb = "\<lparr>Source = ''/h'', Destination = ''/c'', Flags = ''rw'', SizeInBytes = - 100,
            ReadIOPS = 10, WriteIOPS = 0, ReadBytes = 0, WriteBytes = 4096\<rparr>"
  have v: "Validate ?vb = None"
    by (simp add: validate_defs)
  have f: "sort (ToString_flags (Flags ?vb) False) = Flags ?vb"
    by (rule sorted_no_o_flags) simp_all
  have s: "ToString ?vb False = ''/h:/c:rw:-100:10:0:0:4096''"
    by (simp add: emit_defs)
  have "NewVolumeBinding (ToString ?vb False) = (Some ?vb, None)"
    by (rule NewVolumeBinding_ToString_roundtrip [OF v _ _ _ f]) simp_all
  with v f s show ?thesis by simp
qed

subsection \<open>Arity of the emitted string\<close>

text \<open>
  C3, as the specification states it, fails: a binding with empty flags, size 0 and a
  non-zero IO quota is emitted in the 2-field form, not in the 8-field form. Nor is the
  emitted arity the shortest legal one: a binding with the flags \<^verbatim>\<open>rw\<close> and size 0 is
  emitted with 4 fields, while the 3-field string \<^verbatim>\<open>/h:/c:rw\<close> parses to it.
\<close>

theorem ToString_two_fields_with_quota:
  "ReadIOPS \<lparr>Source = ''/h'', Destination = ''/c'', Flags = [], SizeInBytes = 0,
            ReadIOPS = 10, WriteIOPS = 0, ReadBytes = 0, WriteBytes = 0\<rparr> \<noteq> 0
   \<and> ToString \<lparr>Source = ''/h'', Destination = ''/c'', Flags = [], SizeInBytes = 0,
            ReadIOPS = 10, WriteIOPS = 0, ReadBytes = 0, WriteBytes = 0\<rparr> False = ''/h:/c''
   \<and> length (parts_of (ToString \<lparr>Source = ''/h'', Destination = ''/c'', Flags = [],
            SizeInBytes = 0, ReadIOPS = 10, WriteIOPS = 0, ReadBytes = 0,
            WriteBytes = 0\<rparr> False)) = 2
   \<and> ToString \<lparr>Source = ''/h'', Destination = ''/c'', Flags = ''rw'', SizeInBytes = 0,
            ReadIOPS = 0, WriteIOPS = 0, ReadBytes = 0, WriteBytes = 0\<rparr> False = ''/h:/c:rw:0''
   \<and> NewVolumeBinding ''/h:/c:rw'' =
       (Some \<lparr>Source = ''/h'', Destination = ''/c'', Flags = ''rw'', SizeInBytes = 0,
              ReadIOPS = 0, WriteIOPS = 0, ReadBytes = 0, WriteBytes = 0\<rparr>, None)"
  by (simp add: emit_defs parse_defs validate_defs)

text \<open>
  C3, amended. \<open>ToString\<close> emits the 2-field form exactly when the flags are empty and
  the size is 0; otherwise the 8-field form when one of the four IO quotas is not 0, and
  the 4-field form when all four are 0. For a source, destination and flags without
  \<^verbatim>\<open>:\<close> the emitted string splits into exactly these fields.
\<close>

theorem ToString_arity:
  assumes "CHR '':'' \<notin> set (Source vb)" and "CHR '':'' \<notin> set (Destination vb)"
    and "CHR '':'' \<notin> set (Flags vb)"
  shows "parts_of (ToString vb n) =
     (if Flags vb = [] \<and> SizeInBytes vb = 0 then [Source vb, Destination vb]
      else if ReadIOPS vb \<noteq> 0 \<or> WriteIOPS vb \<noteq> 0 \<or> ReadBytes vb \<noteq> 0 \<or> WriteBytes vb \<noteq> 0
        then [Source vb, Destination vb, ToString_flags (Flags vb) n, fmt_d (SizeInBytes vb),
              fmt_d (ReadIOPS vb), fmt_d (WriteIOPS vb), fmt_d (ReadBytes vb),
              fmt_d (WriteBytes vb)]
      else [Source vb, Destination vb, ToString_flags (Flags vb) n, fmt_d (SizeInBytes vb)])
   \<and> length (parts_of (ToString vb n)) =
     (if Flags vb = [] \<and> SizeInBytes vb = 0 then 2
      else if ReadIOPS vb \<noteq> 0 \<or> WriteIOPS vb \<noteq> 0 \<or> ReadBytes vb \<noteq> 0 \<or> WriteBytes vb \<noteq> 0
        then 8
      else 4)"
  using ToString_fields_aux [OF assms, of n]
  by (simp add: emits2_def has_quota_def)

text \<open>The amended C3 at three bindings, one for each form.\<close>

theorem ToString_arity_witness:
  "CHR '':'' \<notin> set ''AUTO'' \<and> CHR '':'' \<notin> set ''/data'' \<and> CHR '':'' \<notin> set ''mrw''
   \<and> parts_of (ToString \<lparr>Source = ''AUTO'', Destination = ''/data'', Flags = ''mrw'',
        SizeInBytes = 1024, ReadIOPS = 10, WriteIOPS = 20, ReadBytes = 4096,
        WriteBytes = 8192\<rparr> True) =
       [''AUTO'', ''/data'', ''rw'', ''1024'', ''10'', ''20'', ''4096'', ''8192'']
   \<and> length (parts_of (ToString \<lparr>Source = ''AUTO'', Destination = ''/data'', Flags = ''mrw'',
        SizeInBytes = 1024, ReadIOPS = 10, WriteIOPS = 20, ReadBytes = 4096,
        WriteBytes = 8192\<rparr> True)) = 8
   \<and> length (parts_of (ToString \<lparr>Source = ''AUTO'', Destination = ''/data'', Flags = ''mrw'',
        SizeInBytes = 1024, ReadIOPS = 0, WriteIOPS = 0, ReadBytes = 0,
        WriteBytes = 0\<rparr> False)) = 4
   \<and> length (parts_of (ToString \<lparr>Source = ''AUTO'', Destination = ''/data'', Flags = [],
        SizeInBytes = 0, ReadIOPS = 0, WriteIOPS = 0, ReadBytes = 0,
        WriteBytes = 0\<rparr> False)) = 2"
  using
    ToString_arity [of "\<lparr>Source = ''AUTO'', Destination = ''/data'', Flags = ''mrw'',
        SizeInBytes = 1024, ReadIOPS = 10, WriteIOPS = 20, ReadBytes = 4096,
        WriteBytes = 8192\<rparr>" True]
    ToString_arity [of "\<lparr>Source = ''AUTO'', Destination = ''/data'', Flags = ''mrw'',
        SizeInBytes = 1024, ReadIOPS = 0, WriteIOPS = 0, ReadBytes = 0,
        WriteBytes = 0\<rparr>" False]
    ToString_arity [of "\<lparr>Source = ''AUTO'', Destination = ''/data'', Flags = [],
        SizeInBytes = 0, ReadIOPS = 0, WriteIOPS = 0, ReadBytes = 0,
        WriteBytes = 0\<rparr>" False]
  by (simp add: ToString_flags_def ReplaceAll_def Contains_def fmt_d_def fmt_decimal.simps ldigits_def)

subsection \<open>Arity and numeric fields of the parsed string\<close>

lemma parse_parts_arity:
  "parse_parts raw parts = Inr vb \<Longrightarrow> length parts \<in> {2, 3, 4, 8}"
  by (auto simp: parse_parts_def split: if_splits)

lemma parse_parts_bad_arity:
  "length parts \<notin> {2, 3, 4, 8} \<Longrightarrow> parse_parts raw parts = Inl (InvalidRawVolume raw)"
  by (simp add: parse_parts_def)

lemma parse_case4_size_error:
  "ParseInt (parts ! 3) = Inl e \<Longrightarrow> parse_case4 parts v = Inl (NumError e (parts ! 3))"
  by (simp add: parse_case4_def)

lemma parse_case8_error:
  assumes "i \<in> {3, 4, 5, 6, 7}" and "ParseInt (parts ! i) = Inl e"
  shows "\<exists>f s. parse_case8 parts v = Inl (NumError f s)"
  using assms
  by (auto simp: parse_case8_def parse_case4_def split: sum.splits)

lemma NewVolumeBinding_parse_error:
  "parse_parts raw (parts_of raw) = Inl e \<Longrightarrow> NewVolumeBinding raw = (None, Some e)"
  by (simp add: NewVolumeBinding_def)

lemma NewVolumeBinding_Some:
  "fst (NewVolumeBinding raw) = Some vb \<Longrightarrow>
     \<exists>vb0. parse_parts raw (parts_of raw) = Inr vb0 \<and> vb = vb0\<lparr>Flags := sort (Flags vb0)\<rparr>
       \<and> snd (NewVolumeBinding raw) = Validate vb"
  by (auto simp: NewVolumeBinding_def Join_sort_explode Let_def split: sum.splits)

lemma NewVolumeBinding_success:
  "snd (NewVolumeBinding raw) = None \<Longrightarrow> \<exists>vb0. parse_parts raw (parts_of raw) = Inr vb0"
  by (auto simp: NewVolumeBinding_def split: sum.splits)

text \<open>
  C5. \<open>NewVolumeBinding\<close> returns no error only on strings that split at \<^verbatim>\<open>:\<close> into 2,
  3, 4 or 8 fields; on any other number of fields it returns \<^verbatim>\<open>nil\<close> and the error
  for an invalid raw volume; when the size field (field 3, with 4 or 8 fields) or an IO
  quota field (fields 4 to 7, with 8 fields) does not parse as a signed 64-bit integer it
  returns \<^verbatim>\<open>nil\<close> and the number error; and the flags of a binding it returns are
  sorted.
\<close>

theorem NewVolumeBinding_arity_numbers_flags:
  "(snd (NewVolumeBinding raw) = None \<longrightarrow> length (parts_of raw) \<in> {2, 3, 4, 8})
   \<and> (length (parts_of raw) \<notin> {2, 3, 4, 8} \<longrightarrow>
        NewVolumeBinding raw = (None, Some (InvalidRawVolume raw)))
   \<and> (length (parts_of raw) \<in> {4, 8} \<and> ParseInt (parts_of raw ! 3) = Inl e \<longrightarrow>
        fst (NewVolumeBinding raw) = None
        \<and> (\<exists>f s. snd (NewVolumeBinding raw) = Some (NumError f s)))
   \<and> (length (parts_of raw) = 8 \<and> i \<in> {4, 5, 6, 7} \<and> ParseInt (parts_of raw ! i) = Inl e \<longrightarrow>
        fst (NewVolumeBinding raw) = None
        \<and> (\<exists>f s. snd (NewVolumeBinding raw) = Some (NumError f s)))
   \<and> (fst (NewVolumeBinding raw) = Some vb \<longrightarrow> sorted (Flags vb))"
proof (intro conjI impI)
  assume "snd (NewVolumeBinding raw) = None"
  then show "length (parts_of raw) \<in> {2, 3, 4, 8}"
    using NewVolumeBinding_success parse_parts_arity by blast
next
  assume "length (parts_of raw) \<notin> {2, 3, 4, 8}"
  then show "NewVolumeBinding raw = (None, Some (InvalidRawVolume raw))"
    by (simp add: NewVolumeBinding_parse_error parse_parts_bad_arity)
next
  assume a: "length (parts_of raw) \<in> {4, 8} \<and> ParseInt (parts_of raw ! 3) = Inl e"
  then have "\<exists>f s. parse_parts raw (parts_of raw) = Inl (NumError f s)"
    using parse_case8_error [of 3 "parts_of raw" e] parse_case4_size_error [of "parts_of raw" e]
    by (auto simp: parse_parts_def)
  then obtain f s where "NewVolumeBinding raw = (None, Some (NumError f s))"
    using NewVolumeBinding_parse_error by blast
  then show "fst (NewVolumeBinding raw) = None"
    and "\<exists>f s. snd (NewVolumeBinding raw) = Some (NumError f s)"
    by simp_all
next
  assume a: "length (parts_of raw) = 8 \<and> i \<in> {4, 5, 6, 7} \<and> ParseInt (parts_of raw ! i) = Inl e"
  then have "\<exists>f s. parse_parts raw (parts_of raw) = Inl (NumError f s)"
    using parse_case8_error [of i "parts_of raw" e]
    by (auto simp: parse_parts_def)
  then obtain f s where "NewVolumeBinding raw = (None, Some (NumError f s))"
    using NewVolumeBinding_parse_error by blast
  then show "fst (NewVolumeBinding raw) = None"
    and "\<exists>f s. snd (NewVolumeBinding raw) = Some (NumError f s)"
    by simp_all
next
  assume "fst (NewVolumeBinding raw) = Some vb"
  then show "sorted (Flags vb)"
    using NewVolumeBinding_Some [of raw vb] by auto
qed

text \<open>
  C5 at four strings: three fields with unsorted flags, five fields, a size that is not
  a number, and a write quota beyond the 64-bit range.
\<close>

theorem NewVolumeBinding_arity_numbers_flags_witness:
  "NewVolumeBinding ''a:/b:wr'' =
     (Some \<lparr>Source = ''a'', Destination = ''/b'', Flags = ''rw'', SizeInBytes = 0,
            ReadIOPS = 0, WriteIOPS = 0, ReadBytes = 0, WriteBytes = 0\<rparr>, None)
   \<and> length (parts_of ''a:/b:wr'') = 3
   \<and> sorted ''rw''
   \<and> length (parts_of ''a:/b:rw:1:2'') = 5
   \<and> NewVolumeBinding ''a:/b:rw:1:2'' = (None, Some (InvalidRawVolume ''a:/b:rw:1:2''))
   \<and> ParseInt (parts_of ''a:/b:rw:1G'' ! 3) = Inl ErrSyntax
   \<and> fst (NewVolumeBinding ''a:/b:rw:1G'') = None
   \<and> (\<exists>f s. snd (NewVolumeBinding ''a:/b:rw:1G'') = Some (NumError f s))
   \<and> ParseInt (parts_of ''a:/b:rw:1:2:3:4:9223372036854775808'' ! 7) = Inl ErrRange
   \<and> fst (NewVolumeBinding ''a:/b:rw:1:2:3:4:9223372036854775808'') = None
   \<and> (\<exists>f s. snd (NewVolumeBinding ''a:/b:rw:1:2:3:4:9223372036854775808'') = Some (NumError f s))"
proof -
  have p: "NewVolumeBinding ''a:/b:wr'' =
     (Some \<lparr>Source = ''a'', Destination = ''/b'', Flags = ''rw'', SizeInBytes = 0,
            ReadIOPS = 0, WriteIOPS = 0, ReadBytes = 0, WriteBytes = 0\<rparr>, None)"
    by (simp add: parse_defs validate_defs)
  have l5: "length (parts_of ''a:/b:rw:1:2'') = 5" by simp
  have e3: "ParseInt (parts_of ''a:/b:rw:1G'' ! 3) = Inl ErrSyntax"
    by (simp add: parse_defs)
  have e7: "ParseInt (parts_of ''a:/b:rw:1:2:3:4:9223372036854775808'' ! 7) = Inl ErrRange"
    by (simp add: parse_defs)
  show ?thesis
    using p l5 e3 e7
      NewVolumeBinding_arity_numbers_flags [of "''a:/b:wr''" ErrSyntax 4
        "\<lparr>Source = ''a'', Destination = ''/b'', Flags = ''rw'', SizeInBytes = 0,
            ReadIOPS = 0, WriteIOPS = 0, ReadBytes = 0, WriteBytes = 0\<rparr>"]
      NewVolumeBinding_arity_numbers_flags [of "''a:/b:rw:1:2''" ErrSyntax 4]
      NewVolumeBinding_arity_numbers_flags [of "''a:/b:rw:1G''" ErrSyntax 4]
      NewVolumeBinding_arity_numbers_flags [of "''a:/b:rw:1:2:3:4:9223372036854775808''" ErrRange 7]
    by simp
qed

subsection \<open>Negative sizes\<close>

text \<open>
  C10. A raw string of 2, 3, 4 or 8 fields whose source does not end in \<^verbatim>\<open>AUTO\<close>,
  whose destination is not empty, whose size field (when present) is a signed 64-bit
  integer of either sign and whose IO quotas (when present) are such integers and not
  negative, is parsed with no error; \<open>Validate\<close> accepts the binding with any size in
  place of its own.
\<close>

theorem NewVolumeBinding_accepts_negative_size:
  assumes arity: "length (parts_of raw) \<in> {2, 3, 4, 8}"
    and source: "\<not> HasSuffix (parts_of raw ! 0) ''AUTO''"
    and dest: "parts_of raw ! 1 \<noteq> []"
    and size: "length (parts_of raw) \<in> {4, 8} \<longrightarrow> ParseInt (parts_of raw ! 3) = Inr sz"
    and quotas: "length (parts_of raw) = 8 \<longrightarrow>
        ParseInt (parts_of raw ! 4) = Inr a \<and> ParseInt (parts_of raw ! 5) = Inr b \<and>
        ParseInt (parts_of raw ! 6) = Inr c \<and> ParseInt (parts_of raw ! 7) = Inr d \<and>
        0 \<le> sint a \<and> 0 \<le> sint b \<and> 0 \<le> sint c \<and> 0 \<le> sint d"
  shows "\<exists>vb. NewVolumeBinding raw = (Some vb, None)
           \<and> Source vb = parts_of raw ! 0 \<and> Destination vb = parts_of raw ! 1
           \<and> (length (parts_of raw) \<in> {4, 8} \<longrightarrow> SizeInBytes vb = sz)
           \<and> (\<forall>s. Validate (vb\<lparr>SizeInBytes := s\<rparr>) = None)"
proof -
  let ?parts = "parts_of raw"
  have "\<exists>vb0. parse_parts raw ?parts = Inr vb0 \<and> Source vb0 = ?parts ! 0
          \<and> Destination vb0 = ?parts ! 1 \<and> ValidIOParameters vb0
          \<and> (length ?parts \<in> {4, 8} \<longrightarrow> SizeInBytes vb0 = sz)"
  proof -
    from arity consider "length ?parts = 2" | "length ?parts = 3"
      | "length ?parts = 4" | "length ?parts = 8" by auto
    then show ?thesis
    proof cases
      case 1
      then show ?thesis
        by (simp add: parse_parts_def parse_case2_def zero_VolumeBinding_def
            ValidIOParameters_def)
    next
      case 2
      then show ?thesis
        by (simp add: parse_parts_def parse_case3_def parse_case2_def zero_VolumeBinding_def
            ValidIOParameters_def)
    next
      case 3
      then show ?thesis
        using size
        by (simp add: parse_parts_def parse_case4_def parse_case3_def parse_case2_def
            zero_VolumeBinding_def ValidIOParameters_def)
    next
      case 4
      then show ?thesis
        using size quotas
        by (simp add: parse_parts_def parse_case8_def parse_case4_def parse_case3_def
            parse_case2_def zero_VolumeBinding_def ValidIOParameters_def)
    qed
  qed
  then obtain vb0 where p: "parse_parts raw ?parts = Inr vb0"
    and f: "Source vb0 = ?parts ! 0" "Destination vb0 = ?parts ! 1" "ValidIOParameters vb0"
      "length ?parts \<in> {4, 8} \<longrightarrow> SizeInBytes vb0 = sz"
    by blast
  let ?vb = "vb0\<lparr>Flags := sort (Flags vb0)\<rparr>"
  have v: "Validate (?vb\<lparr>SizeInBytes := s\<rparr>) = None" for s
    using f source dest
    by (simp add: Validate_def RequireScheduleMonopoly_def RequireSchedule_def auto_def
        ValidIOParameters_def)
  from v [of "SizeInBytes vb0"] have "Validate ?vb = None" by simp
  then have "NewVolumeBinding raw = (Some ?vb, None)"
    using p by (simp add: NewVolumeBinding_def Join_sort_explode)
  then show ?thesis
    using f v by (intro exI [of _ ?vb]) simp
qed

text \<open>C10 at \<^verbatim>\<open>src:/data:rw:-100\<close>, whose size is negative.\<close>

theorem NewVolumeBinding_accepts_negative_size_witness:
  "length (parts_of ''src:/data:rw:-100'') = 4
   \<and> \<not> HasSuffix (parts_of ''src:/data:rw:-100'' ! 0) ''AUTO''
   \<and> parts_of ''src:/data:rw:-100'' ! 1 \<noteq> []
   \<and> ParseInt (parts_of ''src:/data:rw:-100'' ! 3) = Inr (- 100)
   \<and> sint (- 100 :: int64) < 0
   \<and> NewVolumeBinding ''src:/data:rw:-100'' =
       (Some \<lparr>Source = ''src'', Destination = ''/data'', Flags = ''rw'', SizeInBytes = - 100,
              ReadIOPS = 0, WriteIOPS = 0, ReadBytes = 0, WriteBytes = 0\<rparr>, None)
   \<and> (\<exists>vb. NewVolumeBinding ''src:/data:rw:-100'' = (Some vb, None)
          \<and> SizeInBytes vb = - 100)"
proof -
  let ?raw = "''src:/data:rw:-100''"
  have l: "length (parts_of ?raw) = 4" by simp
  have s: "\<not> HasSuffix (parts_of ?raw ! 0) ''AUTO''" by (simp add: HasSuffix_def)
  have d: "parts_of ?raw ! 1 \<noteq> []" by simp
  have z: "ParseInt (parts_of ?raw ! 3) = Inr (- 100)" by (simp add: parse_defs)
  have n: "sint (- 100 :: int64) < 0" by simp
  have e: "NewVolumeBinding ?raw =
       (Some \<lparr>Source = ''src'', Destination = ''/data'', Flags = ''rw'', SizeInBytes = - 100,
              ReadIOPS = 0, WriteIOPS = 0, ReadBytes = 0, WriteBytes = 0\<rparr>, None)"
    by (simp add: parse_defs validate_defs)
  have "\<exists>vb. NewVolumeBinding ?raw = (Some vb, None)
           \<and> Source vb = parts_of ?raw ! 0 \<and> Destination vb = parts_of ?raw ! 1
           \<and> (length (parts_of ?raw) \<in> {4, 8} \<longrightarrow> SizeInBytes vb = - 100)
           \<and> (\<forall>s. Validate (vb\<lparr>SizeInBytes := s\<rparr>) = None)"
    by (rule NewVolumeBinding_accepts_negative_size [where a = 0 and b = 0 and c = 0 and d = 0])
      (use l s d z in simp_all)
  then have "\<exists>vb. NewVolumeBinding ?raw = (Some vb, None) \<and> SizeInBytes vb = - 100"
    using l by auto
  with l s d z n e show ?thesis by blast
qed

subsection \<open>MergeVolumeBindings\<close>

lemma map_of_store_entry: "map_of (store_entry k v m) = (map_of m)(k \<mapsto> v)"
  by (induction m) auto

lemma keys_store_entry: "set (map fst (store_entry k v m)) = insert k (set (map fst m))"
  by (induction m) auto

lemma distinct_store_entry:
  "distinct (map fst m) \<Longrightarrow> distinct (map fst (store_entry k v m))"
  by (induction m) (auto simp: keys_store_entry simp flip: set_map)

lemma group_of_snoc:
  "group_of (xs @ [x]) k = (if key_of x = k then group_of xs k @ [x] else group_of xs k)"
  by (simp add: group_of_def)

lemma group_sum_snoc:
  "group_sum f (xs @ [x]) k = (if key_of x = k then group_sum f xs k + f x else group_sum f xs k)"
  by (simp add: group_sum_def group_of_snoc)

lemma group_of_fresh: "k \<notin> key_of ` set xs \<Longrightarrow> group_of xs k = []"
  by (auto simp: group_of_def filter_empty_conv)

lemma group_sum_fresh: "k \<notin> key_of ` set xs \<Longrightarrow> group_sum f xs k = 0"
  by (simp add: group_sum_def group_of_fresh)

lemma group_para_snoc_other: "key_of x \<noteq> k \<Longrightarrow> group_para (xs @ [x]) k = group_para xs k"
  by (simp add: group_para_def group_sum_snoc)

lemma sizeMap_inv_distinct: "sizeMap_inv xs m \<Longrightarrow> distinct (map fst m)"
  unfolding sizeMap_inv_def by blast

lemma sizeMap_inv_lookup:
  "sizeMap_inv xs m \<Longrightarrow>
     map_of m k = (if k \<in> key_of ` set xs then Some (group_para xs k) else None)"
  unfolding sizeMap_inv_def by blast

lemma sizeMap_invI:
  assumes "distinct (map fst m)"
    and "\<And>k. map_of m k = (if k \<in> key_of ` set xs then Some (group_para xs k) else None)"
  shows "sizeMap_inv xs m"
  unfolding sizeMap_inv_def using assms by blast

lemma sizeMap_inv_Nil: "sizeMap_inv [] []"
  by (rule sizeMap_invI) simp_all

lemma sizeMap_inv_step:
  assumes "sizeMap_inv xs m"
  shows "sizeMap_inv (xs @ [x]) (merge_step m x)"
proof -
  let ?k = "key_of x"
  note d = sizeMap_inv_distinct [OF assms]
  note l = sizeMap_inv_lookup [OF assms]
  show ?thesis
  proof (cases "?k \<in> key_of ` set xs")
    case False
    then have "map_of m ?k = None" by (simp add: l)
    then have s: "merge_step m x =
        store_entry ?k [SizeInBytes x, ReadIOPS x, WriteIOPS x, ReadBytes x, WriteBytes x] m"
      by (simp add: merge_step_def Let_def)
    have "group_para (xs @ [x]) ?k =
        [SizeInBytes x, ReadIOPS x, WriteIOPS x, ReadBytes x, WriteBytes x]"
      using False by (simp add: group_para_def group_sum_snoc group_sum_fresh)
    then show ?thesis
      unfolding s
      using d by (intro sizeMap_invI) (auto simp: distinct_store_entry map_of_store_entry l
          group_para_snoc_other)
  next
    case True
    then have "map_of m ?k = Some (group_para xs ?k)" by (simp add: l)
    then have s: "merge_step m x =
        store_entry ?k
          [group_sum SizeInBytes xs ?k + SizeInBytes x, group_sum ReadIOPS xs ?k + ReadIOPS x,
           group_sum WriteIOPS xs ?k + WriteIOPS x, group_sum ReadBytes xs ?k + ReadBytes x,
           group_sum WriteBytes xs ?k + WriteBytes x] m"
      by (simp add: merge_step_def group_para_def Let_def)
    have "group_para (xs @ [x]) ?k =
          [group_sum SizeInBytes xs ?k + SizeInBytes x, group_sum ReadIOPS xs ?k + ReadIOPS x,
           group_sum WriteIOPS xs ?k + WriteIOPS x, group_sum ReadBytes xs ?k + ReadBytes x,
           group_sum WriteBytes xs ?k + WriteBytes x]"
      by (simp add: group_para_def group_sum_snoc)
    then show ?thesis
      unfolding s
      using d by (intro sizeMap_invI) (auto simp: distinct_store_entry map_of_store_entry l
          group_para_snoc_other)
  qed
qed

lemma sizeMap_inv_foldl: "sizeMap_inv xs (foldl merge_step [] xs)"
  by (induction xs rule: rev_induct) (simp_all add: sizeMap_inv_Nil sizeMap_inv_step)

lemma foldl_foldl_concat: "foldl (\<lambda>m vbs. foldl f m vbs) a xss = foldl f a (concat xss)"
  by (induction xss arbitrary: a) simp_all

lemma merge_sizeMap_inv: "sizeMap_inv (concat vbss) (merge_sizeMap vbss)"
  by (simp add: merge_sizeMap_def foldl_foldl_concat sizeMap_inv_foldl)

lemma sizeMap_inv_entries:
  assumes "sizeMap_inv xs m"
  shows "m = map (\<lambda>k. (k, group_para xs k)) (map fst m)"
proof -
  have "e = (fst e, group_para xs (fst e))" if "e \<in> set m" for e
  proof -
    from assms have "distinct (map fst m)" by (rule sizeMap_inv_distinct)
    with that have "map_of m (fst e) = Some (snd e)" by simp
    moreover from assms have "map_of m (fst e) =
        (if fst e \<in> key_of ` set xs then Some (group_para xs (fst e)) else None)"
      by (rule sizeMap_inv_lookup)
    ultimately have "snd e = group_para xs (fst e)" by (simp split: if_splits)
    then show ?thesis by (metis prod.collapse)
  qed
  then show ?thesis
    by (simp add: map_idI comp_def)
qed

lemma sizeMap_inv_keys:
  assumes "sizeMap_inv xs m"
  shows "mset (map fst m) = mset (remdups (map key_of xs))"
proof -
  from assms have d: "distinct (map fst m)" by (rule sizeMap_inv_distinct)
  have "dom (map_of m) = key_of ` set xs"
    unfolding dom_def sizeMap_inv_lookup [OF assms] by (auto split: if_splits)
  then have "set (map fst m) = set (remdups (map key_of xs))"
    by (simp add: dom_map_of_conv_image_fst)
  moreover have "distinct (remdups (map key_of xs))" by simp
  ultimately show ?thesis
    using d set_eq_iff_mset_eq_distinct by blast
qed

lemma merge_emit_para: "merge_emit (k, group_para xs k) = merged_group xs k"
  by (cases k) (simp add: merge_emit_def merged_group_def group_para_def)

lemma MergeVolumeBindings_keys:
  "\<exists>ks. distinct ks \<and> mset ks = mset (remdups (map key_of (concat (vbs2 @ [vbs1]))))
     \<and> MergeVolumeBindings vbs1 vbs2 =
         map (merged_group (concat (vbs2 @ [vbs1])))
           (filter (\<lambda>k. 0 \<le> sint (group_sum SizeInBytes (concat (vbs2 @ [vbs1])) k)) ks)"
proof -
  let ?xs = "concat (vbs2 @ [vbs1])"
  let ?m = "merge_sizeMap (vbs2 @ [vbs1])"
  have inv: "sizeMap_inv ?xs ?m" by (rule merge_sizeMap_inv)
  let ?ks = "map fst ?m"
  have m: "?m = map (\<lambda>k. (k, group_para ?xs k)) ?ks"
    by (rule sizeMap_inv_entries [OF inv])
  have "MergeVolumeBindings vbs1 vbs2 =
      map merge_emit (filter (\<lambda>e. \<not> sint (snd e ! 0) < 0) (map (\<lambda>k. (k, group_para ?xs k)) ?ks))"
    unfolding MergeVolumeBindings_def by (subst m) (rule refl)
  also have "\<dots> = map (merged_group ?xs)
           (filter (\<lambda>k. 0 \<le> sint (group_sum SizeInBytes ?xs k)) ?ks)"
    by (simp add: filter_map comp_def merge_emit_para not_less)
      (simp add: group_para_def)
  finally show ?thesis
    using sizeMap_inv_distinct [OF inv] sizeMap_inv_keys [OF inv]
    by (intro exI [of _ ?ks]) simp
qed

lemma MergeVolumeBindings_mset:
  "mset (MergeVolumeBindings vbs1 vbs2) = mset (merge_spec (concat (vbs2 @ [vbs1])))"
proof -
  obtain ks where "mset ks = mset (remdups (map key_of (concat (vbs2 @ [vbs1]))))"
    and "MergeVolumeBindings vbs1 vbs2 =
         map (merged_group (concat (vbs2 @ [vbs1])))
           (filter (\<lambda>k. 0 \<le> sint (group_sum SizeInBytes (concat (vbs2 @ [vbs1])) k)) ks)"
    using MergeVolumeBindings_keys by blast
  then show ?thesis
    by (simp add: merge_spec_def kept_keys_def)
qed

lemma key_of_merged_group: "key_of (merged_group xs k) = k"
  by (simp add: key_of_def merged_group_def)

lemma MergeVolumeBindings_distinct: "distinct (map key_of (MergeVolumeBindings vbs1 vbs2))"
proof -
  obtain ks where "distinct ks"
    and "MergeVolumeBindings vbs1 vbs2 =
         map (merged_group (concat (vbs2 @ [vbs1])))
           (filter (\<lambda>k. 0 \<le> sint (group_sum SizeInBytes (concat (vbs2 @ [vbs1])) k)) ks)"
    using MergeVolumeBindings_keys by blast
  then show ?thesis
    by (simp add: comp_def key_of_merged_group)
qed


text \<open>
  C4. The result of \<open>MergeVolumeBindings\<close> has, up to the order of its elements, one
  binding for each group of the bindings of all its arguments (a group is the bindings
  with the same source, destination and flags) whose summed size is not negative; the
  five numbers of that binding are the sums over the group, in the arithmetic of
  \<^verbatim>\<open>int64\<close>. No two bindings of the result have the same source, destination and flags.
  A size of 100 and one of -100 on one key give a binding of size 0, which is kept; a
  lone size of -200 is dropped.
\<close>

theorem MergeVolumeBindings_groups:
  "mset (MergeVolumeBindings vbs1 vbs2) = mset (merge_spec (concat (vbs2 @ [vbs1])))
   \<and> distinct (map key_of (MergeVolumeBindings vbs1 vbs2))
   \<and> MergeVolumeBindings
        [\<lparr>Source = ''AUTO'', Destination = ''/d'', Flags = ''rw'', SizeInBytes = 100,
          ReadIOPS = 0, WriteIOPS = 0, ReadBytes = 0, WriteBytes = 0\<rparr>,
         \<lparr>Source = ''AUTO'', Destination = ''/d'', Flags = ''rw'', SizeInBytes = - 100,
          ReadIOPS = 0, WriteIOPS = 0, ReadBytes = 0, WriteBytes = 0\<rparr>] []
      = [\<lparr>Source = ''AUTO'', Destination = ''/d'', Flags = ''rw'', SizeInBytes = 0,
          ReadIOPS = 0, WriteIOPS = 0, ReadBytes = 0, WriteBytes = 0\<rparr>]
   \<and> MergeVolumeBindings
        [\<lparr>Source = ''AUTO'', Destination = ''/d'', Flags = ''rw'', SizeInBytes = - 200,
          ReadIOPS = 0, WriteIOPS = 0, ReadBytes = 0, WriteBytes = 0\<rparr>] []
      = []"
proof (intro conjI)
  show "mset (MergeVolumeBindings vbs1 vbs2) = mset (merge_spec (concat (vbs2 @ [vbs1])))"
    by (rule MergeVolumeBindings_mset)
  show "distinct (map key_of (MergeVolumeBindings vbs1 vbs2))"
    by (rule MergeVolumeBindings_distinct)
qed (simp_all add: MergeVolumeBindings_def merge_sizeMap_def merge_step_def key_of_def
    merge_emit_def)

subsection \<open>TotalSize\<close>

lemma foldl_add_sum_list:
  "foldl (\<lambda>total x. total + f x) a xs = a + sum_list (map f xs)"
  for a :: "'a :: monoid_add"
  by (induction xs arbitrary: a) (simp_all add: add.assoc)

lemma TotalSize_sum_list: "TotalSize vbs = sum_list (map SizeInBytes vbs)"
  by (simp add: TotalSize_def foldl_add_sum_list)

lemma sum_list_delta:
  "distinct ks \<Longrightarrow>
     sum_list (map (\<lambda>k. if a = k then c else 0) ks) = (if a \<in> set ks then c else 0)"
  for c :: "'a :: comm_monoid_add"
  by (induction ks) auto

lemma sum_list_groups:
  assumes "distinct ks" and "key_of ` set xs \<subseteq> set ks"
  shows "sum_list (map (group_sum f xs) ks) = sum_list (map f xs)"
  using assms(2)
proof (induction xs)
  case Nil
  show ?case by (simp add: group_sum_def group_of_def)
next
  case (Cons x xs)
  have "group_sum f (x # xs) =
      (\<lambda>k. (if key_of x = k then f x else 0) + group_sum f xs k)"
    by (rule ext) (simp add: group_sum_def group_of_def)
  then have "sum_list (map (group_sum f (x # xs)) ks) =
      sum_list (map (\<lambda>k. if key_of x = k then f x else 0) ks) + sum_list (map (group_sum f xs) ks)"
    by (simp only: sum_list_addf)
  also have "\<dots> = f x + sum_list (map f xs)"
    using Cons assms(1) by (simp add: sum_list_delta)
  finally show ?case by simp
qed

lemma sum_list_filter_split:
  "sum_list (map g (filter P ks)) + sum_list (map g (filter (\<lambda>k. \<not> P k) ks)) = sum_list (map g ks)"
  for g :: "'k \<Rightarrow> 'a :: comm_monoid_add"
  by (induction ks) (simp_all add: ac_simps)

lemma TotalSize_merge_spec:
  "TotalSize (merge_spec xs) = sum_list (map (group_sum SizeInBytes xs) (kept_keys xs))"
  by (simp add: TotalSize_sum_list merge_spec_def comp_def merged_group_def)

lemma TotalSize_mset: "mset xs = mset ys \<Longrightarrow> TotalSize xs = TotalSize ys"
  unfolding TotalSize_sum_list
  by (metis mset_map sum_mset_sum_list)

lemma kept_dropped_total:
  "sum_list (map (group_sum SizeInBytes xs) (kept_keys xs))
     + sum_list (map (group_sum SizeInBytes xs) (dropped_keys xs)) = TotalSize xs"
proof -
  have "dropped_keys xs =
      filter (\<lambda>k. \<not> 0 \<le> sint (group_sum SizeInBytes xs k)) (remdups (map key_of xs))"
    by (simp add: dropped_keys_def not_le)
  then have "sum_list (map (group_sum SizeInBytes xs) (kept_keys xs))
     + sum_list (map (group_sum SizeInBytes xs) (dropped_keys xs))
     = sum_list (map (group_sum SizeInBytes xs) (remdups (map key_of xs)))"
    unfolding kept_keys_def by (simp only: sum_list_filter_split)
  also have "\<dots> = sum_list (map SizeInBytes xs)"
    by (rule sum_list_groups) simp_all
  finally show ?thesis by (simp add: TotalSize_sum_list)
qed

text \<open>
  C7. \<open>TotalSize\<close> of the result of \<open>MergeVolumeBindings\<close> is the sum of the summed
  sizes of the kept groups, which is \<open>TotalSize\<close> of all the bindings of the arguments
  minus the summed sizes of the groups that were dropped because their size went
  negative (sums in the arithmetic of \<^verbatim>\<open>int64\<close>).
\<close>

theorem TotalSize_MergeVolumeBindings:
  "TotalSize (MergeVolumeBindings vbs1 vbs2) =
     sum_list (map (group_sum SizeInBytes (concat (vbs2 @ [vbs1])))
       (kept_keys (concat (vbs2 @ [vbs1]))))
   \<and> TotalSize (MergeVolumeBindings vbs1 vbs2) =
     TotalSize (concat (vbs2 @ [vbs1]))
       - sum_list (map (group_sum SizeInBytes (concat (vbs2 @ [vbs1])))
           (dropped_keys (concat (vbs2 @ [vbs1]))))"
proof -
  let ?xs = "concat (vbs2 @ [vbs1])"
  have k: "TotalSize (MergeVolumeBindings vbs1 vbs2) =
     sum_list (map (group_sum SizeInBytes ?xs) (kept_keys ?xs))"
    using TotalSize_mset [OF MergeVolumeBindings_mset [of vbs1 vbs2]]
    by (simp only: TotalSize_merge_spec)
  moreover have "sum_list (map (group_sum SizeInBytes ?xs) (kept_keys ?xs)) =
      TotalSize ?xs - sum_list (map (group_sum SizeInBytes ?xs) (dropped_keys ?xs))"
    using kept_dropped_total [of ?xs] by (simp add: algebra_simps)
  ultimately show ?thesis by simp
qed

subsection \<open>ApplyPlan\<close>

lemma deref_append: "deref h p \<noteq> None \<Longrightarrow> deref (h @ h1) p = deref h p"
  by (auto simp: deref_def nth_append)

lemma deref_new: "deref (h @ h1) (Suc (length h + i)) = (if i < length h1 then Some (h1 ! i) else None)"
  by (auto simp: deref_def nth_append)

lemma deref_fresh: "length h < p \<Longrightarrow> deref h p = None"
  by (simp add: deref_def)

lemma alloc_then_set:
  "(case g tmp of
      None \<Rightarrow> h @ [tmp]
    | Some vmap \<Rightarrow> set_Source (h @ [tmp]) (Suc (length h)) (r vmap)) = h @ [planned g r tmp]"
  by (simp add: set_Source_def planned_def split: option.splits)

lemma ApplyPlan_loop_eq:
  assumes "\<forall>p \<in> set vbs. deref h p \<noteq> None"
  shows "ApplyPlan_loop g r h vbs res =
     Some (h @ map (\<lambda>p. planned g r (the (deref h p))) vbs,
           res @ map (\<lambda>i. Suc (length h + i)) [0 ..< length vbs])"
  using assms
proof (induction vbs arbitrary: h res)
  case Nil
  show ?case by simp
next
  case (Cons vb vbs)
  from Cons.prems obtain tmp where tmp: "deref h vb = Some tmp" by auto
  let ?h2 = "h @ [planned g r tmp]"
  have valid: "\<forall>p \<in> set vbs. deref ?h2 p \<noteq> None"
    using Cons.prems by (simp add: deref_append)
  have same: "map (\<lambda>p. planned g r (the (deref ?h2 p))) vbs =
      map (\<lambda>p. planned g r (the (deref h p))) vbs"
    using Cons.prems by (simp add: deref_append)
  have "ApplyPlan_loop g r h (vb # vbs) res =
      ApplyPlan_loop g r ?h2 vbs (res @ [Suc (length h)])"
    by (simp add: tmp alloc_def alloc_then_set)
  also have "\<dots> = Some (?h2 @ map (\<lambda>p. planned g r (the (deref ?h2 p))) vbs,
      (res @ [Suc (length h)]) @ map (\<lambda>i. Suc (length ?h2 + i)) [0 ..< length vbs])"
    by (rule Cons.IH [OF valid])
  also have "\<dots> = Some (h @ map (\<lambda>p. planned g r (the (deref h p))) (vb # vbs),
      res @ map (\<lambda>i. Suc (length h + i)) [0 ..< length (vb # vbs)])"
    by (simp add: same tmp map_upt_Suc del: upt_Suc)
  finally show ?case .
qed

text \<open>
  C8. On a collection without \<^verbatim>\<open>nil\<close> pointers \<open>ApplyPlan\<close> returns a sequence of the
  same length whose pointers are all new and distinct; the \<open>i\<close>-th of them points to a
  copy of the \<open>i\<close>-th input binding, with the source replaced by the resource id when the
  plan has a volume map for that binding; and every binding that was in the store before,
  the input bindings among them, is unchanged.
\<close>

theorem ApplyPlan_new_sequence:
  assumes "\<forall>p \<in> set vbs. deref h p \<noteq> None"
  shows "\<exists>h' res. ApplyPlan getVolumeMap getResourceID h vbs = Some (h', res)
     \<and> length res = length vbs
     \<and> (\<forall>i < length vbs.
          deref h' (res ! i) =
            Some (case getVolumeMap (the (deref h (vbs ! i))) of
                    None \<Rightarrow> the (deref h (vbs ! i))
                  | Some vmap \<Rightarrow> (the (deref h (vbs ! i)))\<lparr>Source := getResourceID vmap\<rparr>))
     \<and> (\<forall>p. deref h p \<noteq> None \<longrightarrow> deref h' p = deref h p)
     \<and> (\<forall>p \<in> set res. deref h p = None)
     \<and> distinct res"
proof -
  let ?h' = "h @ map (\<lambda>p. planned getVolumeMap getResourceID (the (deref h p))) vbs"
  let ?res = "map (\<lambda>i. Suc (length h + i)) [0 ..< length vbs]"
  have eq: "ApplyPlan getVolumeMap getResourceID h vbs = Some (?h', ?res)"
    using ApplyPlan_loop_eq [OF assms, of getVolumeMap getResourceID "[]"]
    by (simp add: ApplyPlan_def)
  have cell: "deref ?h' (?res ! i) =
            Some (case getVolumeMap (the (deref h (vbs ! i))) of
                    None \<Rightarrow> the (deref h (vbs ! i))
                  | Some vmap \<Rightarrow> (the (deref h (vbs ! i)))\<lparr>Source := getResourceID vmap\<rparr>)"
    if "i < length vbs" for i
    using that by (simp add: deref_new planned_def)
  have old: "deref ?h' p = deref h p" if "deref h p \<noteq> None" for p
    using that by (rule deref_append)
  have fresh: "deref h p = None" if "p \<in> set ?res" for p
    using that by (auto simp: deref_fresh)
  show ?thesis
    using eq cell old fresh
    by (intro exI [of _ ?h'] exI [of _ ?res]) (simp add: distinct_map inj_on_def)
qed

text \<open>
  C8 on a store of two bindings, the collection of both in reverse order, and a plan
  that assigns \<^verbatim>\<open>/sda1\<close> to the binding with the source \<^verbatim>\<open>AUTO\<close>.
\<close>

theorem ApplyPlan_new_sequence_witness:
  "deref [\<lparr>Source = ''/h'', Destination = ''/c'', Flags = ''rw'', SizeInBytes = 0,
           ReadIOPS = 0, WriteIOPS = 0, ReadBytes = 0, WriteBytes = 0\<rparr>,
          \<lparr>Source = ''AUTO'', Destination = ''/d'', Flags = ''rw'', SizeInBytes = 100,
           ReadIOPS = 0, WriteIOPS = 0, ReadBytes = 0, WriteBytes = 0\<rparr>] 1 \<noteq> None
   \<and> deref [\<lparr>Source = ''/h'', Destination = ''/c'', Flags = ''rw'', SizeInBytes = 0,
           ReadIOPS = 0, WriteIOPS = 0, ReadBytes = 0, WriteBytes = 0\<rparr>,
          \<lparr>Source = ''AUTO'', Destination = ''/d'', Flags = ''rw'', SizeInBytes = 100,
           ReadIOPS = 0, WriteIOPS = 0, ReadBytes = 0, WriteBytes = 0\<rparr>] 2 \<noteq> None
   \<and> ApplyPlan (\<lambda>vb. if Source vb = ''AUTO'' then Some ''/sda1'' else None) (\<lambda>vmap. vmap)
         [\<lparr>Source = ''/h'', Destination = ''/c'', Flags = ''rw'', SizeInBytes = 0,
           ReadIOPS = 0, WriteIOPS = 0, ReadBytes = 0, WriteBytes = 0\<rparr>,
          \<lparr>Source = ''AUTO'', Destination = ''/d'', Flags = ''rw'', SizeInBytes = 100,
           ReadIOPS = 0, WriteIOPS = 0, ReadBytes = 0, WriteBytes = 0\<rparr>] [2, 1] =
       Some ([\<lparr>Source = ''/h'', Destination = ''/c'', Flags = ''rw'', SizeInBytes = 0,
               ReadIOPS = 0, WriteIOPS = 0, ReadBytes = 0, WriteBytes = 0\<rparr>,
              \<lparr>Source = ''AUTO'', Destination = ''/d'', Flags = ''rw'', SizeInBytes = 100,
               ReadIOPS = 0, WriteIOPS = 0, ReadBytes = 0, WriteBytes = 0\<rparr>,
              \<lparr>Source = ''/sda1'', Destination = ''/d'', Flags = ''rw'', SizeInBytes = 100,
               ReadIOPS = 0, WriteIOPS = 0, ReadBytes = 0, WriteBytes = 0\<rparr>,
              \<lparr>Source = ''/h'', Destination = ''/c'', Flags = ''rw'', SizeInBytes = 0,
               ReadIOPS = 0, WriteIOPS = 0, ReadBytes = 0, WriteBytes = 0\<rparr>],
             [3, 4])"
proof -
  let ?h = "[\<lparr>Source = ''/h'', Destination = ''/c'', Flags = ''rw'', SizeInBytes = 0,
           ReadIOPS = 0, WriteIOPS = 0, ReadBytes = 0, WriteBytes = 0\<rparr>,
          \<lparr>Source = ''AUTO'', Destination = ''/d'', Flags = ''rw'', SizeInBytes = 100,
           ReadIOPS = 0, WriteIOPS = 0, ReadBytes = 0, WriteBytes = 0\<rparr>]"
  let ?g = "\<lambda>vb. if Source vb = ''AUTO'' then Some ''/sda1'' else None"
  have v: "\<forall>p \<in> set [2, 1]. deref ?h p \<noteq> None"
    by (simp add: deref_def)
  obtain h' res where r: "ApplyPlan ?g (\<lambda>vmap. vmap) ?h [2, 1] = Some (h', res)"
    and cells: "\<forall>i < length [2, 1 :: nat].
          deref h' (res ! i) =
            Some (case ?g (the (deref ?h ([2, 1] ! i))) of
                    None \<Rightarrow> the (deref ?h ([2, 1] ! i))
                  | Some vmap \<Rightarrow> (the (deref ?h ([2, 1] ! i)))\<lparr>Source := vmap\<rparr>)"
    and old: "\<forall>p. deref ?h p \<noteq> None \<longrightarrow> deref h' p = deref ?h p"
    using ApplyPlan_new_sequence [OF v, of ?g "\<lambda>vmap. vmap"] by blast
  have "ApplyPlan ?g (\<lambda>vmap. vmap) ?h [2, 1] =
       Some (?h @ [\<lparr>Source = ''/sda1'', Destination = ''/d'', Flags = ''rw'', SizeInBytes = 100,
               ReadIOPS = 0, WriteIOPS = 0, ReadBytes = 0, WriteBytes = 0\<rparr>,
              \<lparr>Source = ''/h'', Destination = ''/c'', Flags = ''rw'', SizeInBytes = 0,
               ReadIOPS = 0, WriteIOPS = 0, ReadBytes = 0, WriteBytes = 0\<rparr>], [3, 4])"
    by (simp add: ApplyPlan_def alloc_def set_Source_def deref_def)
  with r show ?thesis by (simp add: deref_def)
qed

subsection \<open>ToStringSlice and IsEqual\<close>

lemma ToStringSlice_valid:
  assumes "\<forall>p \<in> set vbs. deref h p \<noteq> None"
  shows "ToStringSlice h vbs s n =
     Some (map (\<lambda>p. ToString (the (deref h p)) n)
             (if s then sort_Slice (\<lambda>p. ToString (the (deref h p)) False) vbs else vbs),
           if s then sort_Slice (\<lambda>p. ToString (the (deref h p)) False) vbs else vbs)"
  using assms by (auto simp: ToStringSlice_def list_ex_iff Let_def)

lemma sort_Slice_mset: "mset (sort_Slice k xs) = mset xs"
  by (simp add: sort_Slice_def)

lemma sort_Slice_sorted: "sorted (map k (sort_Slice k xs))"
  by (simp add: sort_Slice_def)

text \<open>
  C9. On a collection without \<^verbatim>\<open>nil\<close> pointers, \<open>ToStringSlice\<close> with
  \<^verbatim>\<open>sorted = true\<close> leaves in the receiver a permutation of its pointers that is sorted
  by the non-normalized string form, and returns the strings in that order; with
  \<^verbatim>\<open>sorted = false\<close> the receiver stays as it was. \<open>IsEqual\<close> leaves both of its
  operands sorted in this way and compares their sorted string forms; the store, and so
  every field of every binding, is only read. On the example both operands end up in
  another order than they had.
\<close>

theorem ToStringSlice_reorders_receiver:
  "((\<forall>p \<in> set vbs. deref h p \<noteq> None) \<longrightarrow>
      (\<exists>vols vbs'. ToStringSlice h vbs True n = Some (vols, vbs')
         \<and> mset vbs' = mset vbs
         \<and> sorted (map (\<lambda>p. ToString (the (deref h p)) False) vbs')
         \<and> vols = map (\<lambda>p. ToString (the (deref h p)) n) vbs')
      \<and> ToStringSlice h vbs False n = Some (map (\<lambda>p. ToString (the (deref h p)) n) vbs, vbs))
   \<and> ((\<forall>p \<in> set vbs. deref h p \<noteq> None) \<and> (\<forall>p \<in> set vbs2. deref h p \<noteq> None) \<longrightarrow>
      (\<exists>b vbs' vbs2'. IsEqual h vbs vbs2 = Some (b, vbs', vbs2')
         \<and> mset vbs' = mset vbs \<and> mset vbs2' = mset vbs2
         \<and> sorted (map (\<lambda>p. ToString (the (deref h p)) False) vbs')
         \<and> sorted (map (\<lambda>p. ToString (the (deref h p)) False) vbs2')
         \<and> (b \<longleftrightarrow> map (\<lambda>p. ToString (the (deref h p)) False) vbs' =
                  map (\<lambda>p. ToString (the (deref h p)) False) vbs2')))
   \<and> IsEqual
        [\<lparr>Source = ''/b'', Destination = ''/d'', Flags = ''rw'', SizeInBytes = 0,
          ReadIOPS = 0, WriteIOPS = 0, ReadBytes = 0, WriteBytes = 0\<rparr>,
         \<lparr>Source = ''/a'', Destination = ''/d'', Flags = ''rw'', SizeInBytes = 0,
          ReadIOPS = 0, WriteIOPS = 0, ReadBytes = 0, WriteBytes = 0\<rparr>,
         \<lparr>Source = ''/b'', Destination = ''/d'', Flags = ''rw'', SizeInBytes = 0,
          ReadIOPS = 0, WriteIOPS = 0, ReadBytes = 0, WriteBytes = 0\<rparr>,
         \<lparr>Source = ''/a'', Destination = ''/d'', Flags = ''rw'', SizeInBytes = 0,
          ReadIOPS = 0, WriteIOPS = 0, ReadBytes = 0, WriteBytes = 0\<rparr>]
        [1, 2] [3, 4]
      = Some (True, [2, 1], [4, 3])"
proof (intro conjI impI)
  assume v: "\<forall>p \<in> set vbs. deref h p \<noteq> None"
  show "\<exists>vols vbs'. ToStringSlice h vbs True n = Some (vols, vbs')
         \<and> mset vbs' = mset vbs
         \<and> sorted (map (\<lambda>p. ToString (the (deref h p)) False) vbs')
         \<and> vols = map (\<lambda>p. ToString (the (deref h p)) n) vbs'"
    by (simp add: ToStringSlice_valid [OF v] sort_Slice_mset sort_Slice_sorted)
  show "ToStringSlice h vbs False n = Some (map (\<lambda>p. ToString (the (deref h p)) n) vbs, vbs)"
    by (simp add: ToStringSlice_valid [OF v])
next
  assume "(\<forall>p \<in> set vbs. deref h p \<noteq> None) \<and> (\<forall>p \<in> set vbs2. deref h p \<noteq> None)"
  then have v: "\<forall>p \<in> set vbs. deref h p \<noteq> None" and v2: "\<forall>p \<in> set vbs2. deref h p \<noteq> None"
    by simp_all
  show "\<exists>b vbs' vbs2'. IsEqual h vbs vbs2 = Some (b, vbs', vbs2')
         \<and> mset vbs' = mset vbs \<and> mset vbs2' = mset vbs2
         \<and> sorted (map (\<lambda>p. ToString (the (deref h p)) False) vbs')
         \<and> sorted (map (\<lambda>p. ToString (the (deref h p)) False) vbs2')
         \<and> (b \<longleftrightarrow> map (\<lambda>p. ToString (the (deref h p)) False) vbs' =
                  map (\<lambda>p. ToString (the (deref h p)) False) vbs2')"
    by (simp add: IsEqual_def ToStringSlice_valid [OF v] ToStringSlice_valid [OF v2]
        sort_Slice_mset sort_Slice_sorted)
next
  show "IsEqual
        [\<lparr>Source = ''/b'', Destination = ''/d'', Flags = ''rw'', SizeInBytes = 0,
          ReadIOPS = 0, WriteIOPS = 0, ReadBytes = 0, WriteBytes = 0\<rparr>,
         \<lparr>Source = ''/a'', Destination = ''/d'', Flags = ''rw'', SizeInBytes = 0,
          ReadIOPS = 0, WriteIOPS = 0, ReadBytes = 0, WriteBytes = 0\<rparr>,
         \<lparr>Source = ''/b'', Destination = ''/d'', Flags = ''rw'', SizeInBytes = 0,
          ReadIOPS = 0, WriteIOPS = 0, ReadBytes = 0, WriteBytes = 0\<rparr>,
         \<lparr>Source = ''/a'', Destination = ''/d'', Flags = ''rw'', SizeInBytes = 0,
          ReadIOPS = 0, WriteIOPS = 0, ReadBytes = 0, WriteBytes = 0\<rparr>]
        [1, 2] [3, 4]
      = Some (True, [2, 1], [4, 3])"
    by (simp add: IsEqual_def ToStringSlice_def deref_def sort_Slice_def emit_defs)
qed

text \<open>C9 on a collection of two bindings that is not sorted.\<close>

theorem ToStringSlice_reorders_receiver_witness:
  "deref [\<lparr>Source = ''/b'', Destination = ''/d'', Flags = ''rw'', SizeInBytes = 0,
          ReadIOPS = 0, WriteIOPS = 0, ReadBytes = 0, WriteBytes = 0\<rparr>,
         \<lparr>Source = ''/a'', Destination = ''/d'', Flags = ''rw'', SizeInBytes = 0,
          ReadIOPS = 0, WriteIOPS = 0, ReadBytes = 0, WriteBytes = 0\<rparr>] 1 \<noteq> None
   \<and> deref [\<lparr>Source = ''/b'', Destination = ''/d'', Flags = ''rw'', SizeInBytes = 0,
          ReadIOPS = 0, WriteIOPS = 0, ReadBytes = 0, WriteBytes = 0\<rparr>,
         \<lparr>Source = ''/a'', Destination = ''/d'', Flags = ''rw'', SizeInBytes = 0,
          ReadIOPS = 0, WriteIOPS = 0, ReadBytes = 0, WriteBytes = 0\<rparr>] 2 \<noteq> None
   \<and> ToStringSlice
        [\<lparr>Source = ''/b'', Destination = ''/d'', Flags = ''rw'', SizeInBytes = 0,
          ReadIOPS = 0, WriteIOPS = 0, ReadBytes = 0, WriteBytes = 0\<rparr>,
         \<lparr>Source = ''/a'', Destination = ''/d'', Flags = ''rw'', SizeInBytes = 0,
          ReadIOPS = 0, WriteIOPS = 0, ReadBytes = 0, WriteBytes = 0\<rparr>] [1, 2] True True
      = Some ([''/a:/d:rw:0'', ''/b:/d:rw:0''], [2, 1])
   \<and> (\<exists>vols vbs'.
        ToStringSlice
          [\<lparr>Source = ''/b'', Destination = ''/d'', Flags = ''rw'', SizeInBytes = 0,
            ReadIOPS = 0, WriteIOPS = 0, ReadBytes = 0, WriteBytes = 0\<rparr>,
           \<lparr>Source = ''/a'', Destination = ''/d'', Flags = ''rw'', SizeInBytes = 0,
            ReadIOPS = 0, WriteIOPS = 0, ReadBytes = 0, WriteBytes = 0\<rparr>] [1, 2] True True
          = Some (vols, vbs')
        \<and> mset vbs' = mset [1, 2] \<and> vbs' \<noteq> [1, 2])"
proof -
  let ?h = "[\<lparr>Source = ''/b'', Destination = ''/d'', Flags = ''rw'', SizeInBytes = 0,
          ReadIOPS = 0, WriteIOPS = 0, ReadBytes = 0, WriteBytes = 0\<rparr>,
         \<lparr>Source = ''/a'', Destination = ''/d'', Flags = ''rw'', SizeInBytes = 0,
          ReadIOPS = 0, WriteIOPS = 0, ReadBytes = 0, WriteBytes = 0\<rparr>]"
  have v: "\<forall>p \<in> set [1, 2]. deref ?h p \<noteq> None"
    by (simp add: deref_def)
  have e: "ToStringSlice ?h [1, 2] True True = Some ([''/a:/d:rw:0'', ''/b:/d:rw:0''], [2, 1])"
    by (simp add: ToStringSlice_def deref_def sort_Slice_def emit_defs)
  note t = ToStringSlice_reorders_receiver [where vbs = "[1, 2]" and h = ?h and n = True,
      THEN conjunct1, THEN mp, OF v, THEN conjunct1]
  have "\<exists>vols vbs'. ToStringSlice ?h [1, 2] True True = Some (vols, vbs')
        \<and> mset vbs' = mset [1, 2] \<and> vbs' \<noteq> [1, 2]"
    using t unfolding e by simp
  with e show ?thesis by (simp add: deref_def)
qed

end
